theory Spec2Isabelle
  imports Complex_Main
begin

section \<open>Numbers and their rendering\<close>

text \<open>
  The measurement engine, the component \<^verbatim>\<open>SpeedTest\<close>, computes on JavaScript numbers.  A finite
  number is modelled by a real (the rounding error of the double format is left out); the
  non-finite values are constructors of their own, so that no quotient of the model silently
  becomes 0.  A division by zero of the engine has a byte count above and \<open>+0\<close> below, so it
  yields \<^verbatim>\<open>Infinity\<close> or \<^verbatim>\<open>NaN\<close>; \<^verbatim>\<open>-Infinity\<close> is there for \<^verbatim>\<open>parseFloat\<close>.
\<close>

datatype jsnum = Num real | Infinity | NegInfinity | NaN

text \<open>\<^verbatim>\<open>Math.round\<close>: the nearest integer, a tie going up.\<close>

definition Math_round :: "real \<Rightarrow> int" where
  "Math_round x = \<lfloor>x + 1 / 2\<rfloor>"

text \<open>Decimal digits of a natural number, most significant first.\<close>

definition digitChar :: "nat \<Rightarrow> char" where
  "digitChar d = ''0123456789'' ! (d mod 10)"

fun digits10 :: "nat \<Rightarrow> string" where
  "digits10 n = (if n < 10 then [digitChar n] else digits10 (n div 10) @ [digitChar (n mod 10)])"

declare digits10.simps [simp del]

text \<open>
  \<^verbatim>\<open>x.toFixed(2)\<close>: the sign is split off, \<open>n\<close> is the integer with \<open>n / 100\<close> nearest to
  \<open>\<bar>x\<bar>\<close> (the larger one on a tie), and the digits of \<open>n\<close> are printed with two of them after
  the point.  From \<open>10\<^sup>2\<^sup>1\<close> on JavaScript prints the exponent form of the double instead, which
  has no counterpart on reals: the model prints the leading digit and \<^verbatim>\<open>e+\<close> with the decimal
  exponent (the mantissa cut to one digit), and no measurement of the engine comes near that
  range.
\<close>

definition centi :: "real \<Rightarrow> nat" where
  "centi x = nat \<lfloor>\<bar>x\<bar> * 100 + 1 / 2\<rfloor>"

definition toFixed2_real :: "real \<Rightarrow> string" where
  "toFixed2_real x =
     (if x < 0 then ''-'' else '''') @
     (if \<bar>x\<bar> \<ge> 10 ^ 21
      then (let ds = digits10 (nat \<lfloor>\<bar>x\<bar>\<rfloor>) in take 1 ds @ ''e+'' @ digits10 (length ds - 1))
      else (let n = centi x
            in digits10 (n div 100) @ ''.'' @ [digitChar (n mod 100 div 10), digitChar (n mod 10)]))"

fun toFixed2 :: "jsnum \<Rightarrow> string" where
  "toFixed2 (Num x) = toFixed2_real x"
| "toFixed2 Infinity = ''Infinity''"
| "toFixed2 NegInfinity = ''-Infinity''"
| "toFixed2 NaN = ''NaN''"

text \<open>
  \<^verbatim>\<open>parseFloat\<close> on the strings the component stores: an optional minus sign, decimal digits
  and an optional fraction are read as far as they go; \<^verbatim>\<open>Infinity\<close> is recognised; a string
  that starts with neither is \<^verbatim>\<open>NaN\<close>.  An exponent part, which only the exponent form of
  \<^verbatim>\<open>toFixed\<close> would produce, is not read.
\<close>

definition isDigit :: "char \<Rightarrow> bool" where
  "isDigit c = (c \<in> set ''0123456789'')"

definition digitVal :: "char \<Rightarrow> nat" where
  "digitVal c = length (takeWhile (\<lambda>d. d \<noteq> c) ''0123456789'')"

definition natOfDigits :: "string \<Rightarrow> nat" where
  "natOfDigits ds = foldl (\<lambda>acc c. 10 * acc + digitVal c) 0 ds"

definition parseUnsigned :: "string \<Rightarrow> jsnum" where
  "parseUnsigned cs =
     (if take 8 cs = ''Infinity'' then Infinity
      else
        let ip = takeWhile isDigit cs;
            rest = dropWhile isDigit cs;
            fp = (case rest of c # rest' \<Rightarrow> if c = CHR ''.'' then takeWhile isDigit rest' else [] | [] \<Rightarrow> [])
        in if ip = [] \<and> fp = [] then NaN
           else Num (real (natOfDigits ip) + real (natOfDigits fp) / 10 ^ length fp))"

definition parseFloat :: "string \<Rightarrow> jsnum" where
  "parseFloat cs =
     (case cs of
        c # cs' \<Rightarrow>
          if c = CHR ''-''
          then (case parseUnsigned cs' of
                  Num x \<Rightarrow> Num (- x)
                | Infinity \<Rightarrow> NegInfinity
                | NegInfinity \<Rightarrow> Infinity
                | NaN \<Rightarrow> NaN)
          else parseUnsigned cs
      | [] \<Rightarrow> NaN)"


section \<open>Component state\<close>

datatype TestState = idle | pinging | downloading | uploading | complete

text \<open>\<^verbatim>\<open>interface TestResult\<close>; \<^verbatim>\<open>null\<close> is \<open>None\<close>.\<close>

record TestResult =
  r_id :: string
  r_timestamp :: string
  r_ipAddress :: string
  r_ping :: "jsnum option"
  r_downloadSpeed :: "jsnum option"
  r_uploadSpeed :: "jsnum option"

text \<open>
  The \<^verbatim>\<open>useState\<close> cells of \<^verbatim>\<open>SpeedTest\<close> and the \<^verbatim>\<open>abortControllerRef\<close> (\<open>True\<close> when it
  holds a controller).  \<open>progressLog\<close> is a ghost field: every argument passed to
  \<^verbatim>\<open>setProgress\<close>, in call order.
\<close>

record state =
  testState :: TestState
  ping :: string
  downloadSpeed :: string
  uploadSpeed :: string
  currentSpeedDisplay :: jsnum
  progress :: int
  ipAddress :: string
  testHistory :: "TestResult list"
  testStatus :: string
  isTesting :: bool
  abortController :: bool
  progressLog :: "int list"

definition initialState :: state where
  "initialState =
     \<lparr>testState = idle, ping = ''-'', downloadSpeed = ''-'', uploadSpeed = ''-'',
      currentSpeedDisplay = Num 0, progress = 0, ipAddress = ''-'', testHistory = [],
      testStatus = ''Ready'', isTesting = False, abortController = False, progressLog = []\<rparr>"

definition setProgress :: "int \<Rightarrow> state \<Rightarrow> state" where
  "setProgress v s = s\<lparr>progress := v, progressLog := progressLog s @ [v]\<rparr>"

definition updateOverallProgress :: "real \<Rightarrow> real \<Rightarrow> real \<Rightarrow> state \<Rightarrow> state" where
  "updateOverallProgress stageStart stageEnd stageProgress s =
     (let overallRange = stageEnd - stageStart;
          currentOverallProgress = stageStart + (overallRange * (stageProgress / 100))
      in setProgress (Math_round currentOverallProgress) s)"

text \<open>What a \<^verbatim>\<open>throw\<close> carries: the \<^verbatim>\<open>AbortError\<close> of a cancelled request, or an \<^verbatim>\<open>Error\<close>
  with its message.\<close>

datatype error = AbortError | Error string

section \<open>Latency stage\<close>

text \<open>
  What the network does to one probe.  \<open>Probe opn ws http\<close>: whether the socket's
  \<^verbatim>\<open>readyState\<close> is \<^verbatim>\<open>OPEN\<close> when the probe starts, what the socket exchange would do, and
  what the \<^verbatim>\<open>HEAD\<close> request would do.  \<open>WsReply l\<close> is a message after \<open>l\<close> ms, \<open>WsTimeout\<close>
  the 2000 ms timer firing first, \<open>WsSendThrows\<close> an exception of \<^verbatim>\<open>send\<close>.
\<close>

datatype http_outcome = HeadOk real | HeadFails | HeadAborted

datatype ws_outcome = WsReply real | WsTimeout | WsSendThrows

datatype probe = Probe bool ws_outcome http_outcome

fun performSinglePing :: "http_outcome \<Rightarrow> error + real option" where
  "performSinglePing (HeadOk l) = Inr (Some l)"
| "performSinglePing HeadAborted = Inl AbortError"
| "performSinglePing HeadFails = Inr None"

definition numPings :: nat where
  "numPings = 100"

definition warmUpPings :: nat where
  "warmUpPings = 10"

text \<open>The body of the \<^verbatim>\<open>for\<close> loop up to the value of \<^verbatim>\<open>latency\<close>; \<open>conn\<close> says whether the
  socket was opened.\<close>

fun probeLatency :: "bool \<Rightarrow> probe \<Rightarrow> error + real option" where
  "probeLatency conn (Probe opn ws http) =
     (if conn \<and> opn
      then (case ws of
              WsReply l \<Rightarrow> Inr (Some l)
            | WsTimeout \<Rightarrow> Inr None
            | WsSendThrows \<Rightarrow> performSinglePing http)
      else performSinglePing http)"

text \<open>The \<^verbatim>\<open>for\<close> loop from index \<open>i\<close> on; the result is the state, the exception that left
  the loop (if any) and \<^verbatim>\<open>pingTimes\<close>.\<close>

function pingLoop ::
  "bool \<Rightarrow> (nat \<Rightarrow> probe) \<Rightarrow> real \<Rightarrow> real \<Rightarrow> nat \<Rightarrow> real list \<Rightarrow> state
   \<Rightarrow> state \<times> error option \<times> real list" where
  "pingLoop conn probes overallStart overallEnd i pingTimes s =
     (if i < numPings
      then (case probeLatency conn (probes i) of
              Inl e \<Rightarrow> (s, Some e, pingTimes)
            | Inr latency \<Rightarrow>
                let pingTimes' =
                      (if latency \<noteq> None \<and> i \<ge> warmUpPings then pingTimes @ [the latency]
                       else if i \<ge> warmUpPings then pingTimes @ [1000]
                       else pingTimes);
                    s' = updateOverallProgress overallStart overallEnd
                           (((real i + 1) / real numPings) * 100) s
                in pingLoop conn probes overallStart overallEnd (i + 1) pingTimes' s')
      else (s, None, pingTimes))"
  by pat_completeness auto
termination
  by (relation "measure (\<lambda>(conn, probes, overallStart, overallEnd, i, pingTimes, s). numPings - i)")
     auto

declare pingLoop.simps [simp del]

text \<open>
  Lines 235 to 252, what \<^verbatim>\<open>runPingTest\<close> does with the collected \<^verbatim>\<open>pingTimes\<close>, one
  definition for each \<^verbatim>\<open>const\<close> of the source: \<^verbatim>\<open>median\<close> (an element of the sorted array),
  \<^verbatim>\<open>cleaned\<close>, \<^verbatim>\<open>averagePing\<close> (the \<^verbatim>\<open>reduce\<close> is a left fold from 0), and the string
  \<^verbatim>\<open>setPing\<close> receives.  The index of \<open>medianPing\<close> is in range whenever the array is not
  empty, which is the only case \<open>pingDisplay\<close> uses it in.
\<close>

definition medianPing :: "real list \<Rightarrow> real" where
  "medianPing pingTimes = sort pingTimes ! (length (sort pingTimes) div 2)"

definition trimThreshold :: "real list \<Rightarrow> real" where
  "trimThreshold pingTimes = min 300 (medianPing pingTimes * 3)"

definition cleaned :: "real list \<Rightarrow> real list" where
  "cleaned pingTimes = filter (\<lambda>t. t < trimThreshold pingTimes) (sort pingTimes)"

definition averagePing :: "real list \<Rightarrow> real" where
  "averagePing pingTimes =
     foldl (\<lambda>a b. a + b) 0 (cleaned pingTimes) / real (length (cleaned pingTimes))"

definition pingDisplay :: "real list \<Rightarrow> string" where
  "pingDisplay pingTimes =
     (if length pingTimes = 0 then ''N/A''
      else if length (cleaned pingTimes) = 0 then ''N/A''
      else toFixed2 (Num (averagePing pingTimes)))"

definition runPingTest ::
  "bool \<Rightarrow> (nat \<Rightarrow> probe) \<Rightarrow> real \<Rightarrow> real \<Rightarrow> state \<Rightarrow> state \<times> error option" where
  "runPingTest conn probes overallStart overallEnd s =
     (case pingLoop conn probes overallStart overallEnd 0 [] s of
        (s', Some e, pingTimes) \<Rightarrow> (s', Some e)
      | (s', None, pingTimes) \<Rightarrow> (s'\<lparr>ping := pingDisplay pingTimes\<rparr>, None))"

section \<open>Throughput stages\<close>

text \<open>
  The expression \<^verbatim>\<open>(bytes / (ms / 1000) / (1024 * 1024)) * 8\<close> that both stages use for the live
  and the final rate.  A zero \<open>ms\<close> divides by zero: \<^verbatim>\<open>NaN\<close> for no bytes, \<^verbatim>\<open>Infinity\<close>
  otherwise.
\<close>

definition speedMbps :: "nat \<Rightarrow> real \<Rightarrow> jsnum" where
  "speedMbps bytes ms =
     (if ms = 0 then (if bytes = 0 then NaN else Infinity)
      else Num ((real bytes / (ms / 1000) / (1024 * 1024)) * 8))"

definition testDuration :: real where
  "testDuration = 10000"

text \<open>The stage progress both transfer loops report: \<^verbatim>\<open>Math.min(100, (elapsed / testDuration)
  * 100)\<close>.\<close>

definition stageProgress :: "real \<Rightarrow> real" where
  "stageProgress elapsed = min 100 ((elapsed / testDuration) * 100)"

text \<open>
  The download as the network delivers it: the \<^verbatim>\<open>fetch\<close> for the response, then one event
  for each \<^verbatim>\<open>reader.read()\<close>.  \<open>Chunk n t\<close> is a chunk of \<open>n\<close> bytes with \<^verbatim>\<open>performance.now()\<close>
  reading \<open>t\<close> right after it; the end of the list is \<^verbatim>\<open>done\<close>.
\<close>

datatype fetch_outcome = ResponseOk | ResponseStatus nat | FetchRejects | FetchAborted

datatype read_event = Chunk nat real | ReadRejects | ReadAborted

fun downloadLoop ::
  "real \<Rightarrow> real \<Rightarrow> real \<Rightarrow> real \<Rightarrow> nat \<Rightarrow> read_event list \<Rightarrow> state
   \<Rightarrow> state \<times> error option \<times> nat" where
  "downloadLoop overallStart overallEnd startTime lastProgressTime downloadedBytes [] s =
     (s, None, downloadedBytes)"
| "downloadLoop overallStart overallEnd startTime lastProgressTime downloadedBytes
     (ReadRejects # reads) s = (s, Some (Error ''read failed''), downloadedBytes)"
| "downloadLoop overallStart overallEnd startTime lastProgressTime downloadedBytes
     (ReadAborted # reads) s = (s, Some AbortError, downloadedBytes)"
| "downloadLoop overallStart overallEnd startTime lastProgressTime downloadedBytes
     (Chunk n currentTime # reads) s =
     (let downloadedBytes' = downloadedBytes + n;
          elapsed = currentTime - startTime;
          report = (currentTime - lastProgressTime > 200);
          currentSpeedMbps = speedMbps downloadedBytes' elapsed;
          s' = (if report
                then updateOverallProgress overallStart overallEnd
                       (stageProgress elapsed)
                       (s\<lparr>downloadSpeed := toFixed2 currentSpeedMbps,
                          currentSpeedDisplay := currentSpeedMbps\<rparr>)
                else s);
          lastProgressTime' = (if report then currentTime else lastProgressTime)
      in if elapsed \<ge> testDuration then (s', None, downloadedBytes')
         else downloadLoop overallStart overallEnd startTime lastProgressTime' downloadedBytes'
                reads s')"

record download_env =
  d_lastProgressTime :: real
  d_fetch :: fetch_outcome
  d_startTime :: real
  d_reads :: "read_event list"
  d_finalNow :: real

text \<open>The \<^verbatim>\<open>try\<close> block of \<^verbatim>\<open>runDownloadTest\<close>.\<close>

definition downloadBody :: "real \<Rightarrow> real \<Rightarrow> download_env \<Rightarrow> state \<Rightarrow> state \<times> error option" where
  "downloadBody overallStart overallEnd env s =
     (case d_fetch env of
        FetchAborted \<Rightarrow> (s, Some AbortError)
      | FetchRejects \<Rightarrow> (s, Some (Error ''fetch failed''))
      | ResponseStatus st \<Rightarrow> (s, Some (Error ''HTTP error!''))
      | ResponseOk \<Rightarrow>
          (case downloadLoop overallStart overallEnd (d_startTime env) (d_lastProgressTime env) 0
                  (d_reads env) s of
             (s', Some e, downloadedBytes) \<Rightarrow> (s', Some e)
           | (s', None, downloadedBytes) \<Rightarrow>
               let finalTime = d_finalNow env - d_startTime env;
                   finalDownloadSpeedMbps = speedMbps downloadedBytes finalTime
               in (updateOverallProgress overallStart overallEnd 100
                     (s'\<lparr>downloadSpeed := toFixed2 finalDownloadSpeedMbps\<rparr>), None)))"

definition runDownloadTest :: "real \<Rightarrow> real \<Rightarrow> download_env \<Rightarrow> state \<Rightarrow> state \<times> error option" where
  "runDownloadTest overallStart overallEnd env s =
     (case downloadBody overallStart overallEnd env s of
        (s', Some AbortError) \<Rightarrow> (s', Some AbortError)
      | (s', Some (Error m)) \<Rightarrow> (s', Some (Error ''Download test failed''))
      | (s', None) \<Rightarrow> (s', None))"


text \<open>
  The upload as the network delivers it: one pair for each turn of the \<^verbatim>\<open>while\<close> loop, the
  \<^verbatim>\<open>performance.now()\<close> reading at its top and what the \<^verbatim>\<open>POST\<close> of that turn does.  The
  loop leaves only through the clock or a cancellation, so a list that ends before either is a
  run still in progress: the result is \<open>None\<close>.
\<close>

datatype upload_outcome = PostOk | PostRejects | PostAborted

definition chunkSize :: nat where
  "chunkSize = 1024 * 1024"

fun uploadLoop ::
  "real \<Rightarrow> real \<Rightarrow> real \<Rightarrow> real \<Rightarrow> nat \<Rightarrow> (real \<times> upload_outcome) list \<Rightarrow> state
   \<Rightarrow> (state \<times> error option \<times> nat) option" where
  "uploadLoop overallStart overallEnd startTime lastProgressTime uploadedBytes [] s = None"
| "uploadLoop overallStart overallEnd startTime lastProgressTime uploadedBytes
     ((currentTime, outcome) # turns) s =
     (let elapsed = currentTime - startTime
      in if elapsed \<ge> testDuration then Some (s, None, uploadedBytes)
         else (case outcome of
                 PostAborted \<Rightarrow> Some (s, Some AbortError, uploadedBytes)
               | PostRejects \<Rightarrow>
                   uploadLoop overallStart overallEnd startTime lastProgressTime uploadedBytes
                     turns s
               | PostOk \<Rightarrow>
                   let uploadedBytes' = uploadedBytes + chunkSize;
                       report = (currentTime - lastProgressTime > 200);
                       currentSpeedMbps = speedMbps uploadedBytes' elapsed;
                       s' = (if report
                             then updateOverallProgress overallStart overallEnd
                                    (stageProgress elapsed)
                                    (s\<lparr>uploadSpeed := toFixed2 currentSpeedMbps,
                                       currentSpeedDisplay := currentSpeedMbps\<rparr>)
                             else s);
                       lastProgressTime' = (if report then currentTime else lastProgressTime)
                   in uploadLoop overallStart overallEnd startTime lastProgressTime'
                        uploadedBytes' turns s'))"

record upload_env =
  u_lastProgressTime :: real
  u_startTime :: real
  u_turns :: "(real \<times> upload_outcome) list"
  u_finalNow :: real

definition runUploadTest ::
  "real \<Rightarrow> real \<Rightarrow> upload_env \<Rightarrow> state \<Rightarrow> (state \<times> error option) option" where
  "runUploadTest overallStart overallEnd env s =
     (case uploadLoop overallStart overallEnd (u_startTime env) (u_lastProgressTime env) 0
             (u_turns env) s of
        None \<Rightarrow> None
      | Some (s', Some e, uploadedBytes) \<Rightarrow> Some (s', Some e)
      | Some (s', None, uploadedBytes) \<Rightarrow>
          let finalTime = u_finalNow env - u_startTime env;
              finalUploadSpeedMbps = speedMbps uploadedBytes finalTime
          in Some (updateOverallProgress overallStart overallEnd 100
                     (s'\<lparr>uploadSpeed := toFixed2 finalUploadSpeedMbps\<rparr>), None))"

section \<open>The orchestrator\<close>

text \<open>Everything one run observes from outside: the address lookup (\<open>None\<close> is \<^verbatim>\<open>null\<close>),
  whether the warm-up socket opened, the probes, the two transfers, and the two strings
  \<^verbatim>\<open>Date.now().toString()\<close> and \<^verbatim>\<open>new Date().toLocaleString()\<close> read in the \<^verbatim>\<open>finally\<close> block.\<close>

record run_env =
  e_ip :: "string option"
  e_conn :: bool
  e_probes :: "nat \<Rightarrow> probe"
  e_download :: download_env
  e_upload :: upload_env
  e_id :: string
  e_timestamp :: string

definition pingProgressEnd :: real where
  "pingProgressEnd = 10"

definition downloadProgressEnd :: real where
  "downloadProgressEnd = 60"

definition uploadProgressEnd :: real where
  "uploadProgressEnd = 100"

text \<open>The \<^verbatim>\<open>try\<close> block of \<^verbatim>\<open>startAllTests\<close>.  \<^verbatim>\<open>fetchIpAddress\<close> catches every failure of
  its own and returns \<^verbatim>\<open>null\<close>, so it never leaves the block.\<close>

definition runStages :: "run_env \<Rightarrow> state \<Rightarrow> (state \<times> error option) option" where
  "runStages env s =
     (let s1 = s\<lparr>testStatus := ''Fetching IP Address...''\<rparr>;
          s2 = s1\<lparr>ipAddress := (case e_ip env of None \<Rightarrow> ''N/A''
                                   | Some ip \<Rightarrow> if ip = [] then ''N/A'' else ip)\<rparr>;
          s3 = s2\<lparr>testStatus := ''Starting Ping Test...''\<rparr>
      in case runPingTest (e_conn env) (e_probes env) 0 pingProgressEnd s3 of
           (s4, Some e) \<Rightarrow> Some (s4, Some e)
         | (s4, None) \<Rightarrow>
             let s5 = s4\<lparr>testStatus := ''Starting Download Test...'', testState := downloading\<rparr>
             in (case runDownloadTest pingProgressEnd downloadProgressEnd (e_download env) s5 of
                   (s6, Some e) \<Rightarrow> Some (s6, Some e)
                 | (s6, None) \<Rightarrow>
                     let s7 = s6\<lparr>testStatus := ''Starting Upload Test...'', testState := uploading\<rparr>
                     in (case runUploadTest downloadProgressEnd uploadProgressEnd (e_upload env) s7 of
                           None \<Rightarrow> None
                         | Some (s8, Some e) \<Rightarrow> Some (s8, Some e)
                         | Some (s8, None) \<Rightarrow>
                             Some (s8\<lparr>testStatus := ''Test Complete!'', testState := complete\<rparr>,
                                   None))))"

text \<open>
  \<^verbatim>\<open>ping\<close>, \<^verbatim>\<open>downloadSpeed\<close>, \<^verbatim>\<open>uploadSpeed\<close> and \<^verbatim>\<open>ipAddress\<close> are \<^verbatim>\<open>const\<close> bindings of the
  render in which this \<^verbatim>\<open>startAllTests\<close> closure was created: \<^verbatim>\<open>setPing\<close> and the other
  setters write the state cell a later render reads, and never the binding a running closure
  holds.  So every read of these four names inside \<^verbatim>\<open>startAllTests\<close> is a read of the
  rendered state \<open>r\<close>, fixed for the whole run, while the setters act on the current state.
\<close>

text \<open>The \<^verbatim>\<open>catch\<close> block.\<close>

definition handleError :: "state \<Rightarrow> error \<Rightarrow> state \<Rightarrow> state" where
  "handleError r e s =
     (case e of
        AbortError \<Rightarrow>
          (let s1 = s\<lparr>testStatus := ''Test Aborted''\<rparr>;
               s2 = (if ping r = ''-'' then s1\<lparr>ping := ''N/A''\<rparr> else s1);
               s3 = (if downloadSpeed r = ''-'' then s2\<lparr>downloadSpeed := ''N/A''\<rparr> else s2);
               s4 = (if uploadSpeed r = ''-'' then s3\<lparr>uploadSpeed := ''N/A''\<rparr> else s3)
           in if ipAddress r = ''-'' then s4\<lparr>ipAddress := ''N/A''\<rparr> else s4)
      | Error message \<Rightarrow>
          (let s1 = s\<lparr>testStatus := ''Error: '' @ message\<rparr>;
               s2 = (if ping r = ''-'' then s1\<lparr>ping := ''Error''\<rparr> else s1);
               s3 = (if downloadSpeed r = ''-'' then s2\<lparr>downloadSpeed := ''Error''\<rparr> else s2);
               s4 = (if uploadSpeed r = ''-'' then s3\<lparr>uploadSpeed := ''Error''\<rparr> else s3)
           in if ipAddress r = ''-'' then s4\<lparr>ipAddress := ''Error''\<rparr> else s4))"

text \<open>The conversion of one displayed string in \<^verbatim>\<open>newResult\<close>.\<close>

definition resultField :: "string \<Rightarrow> jsnum option" where
  "resultField v =
     (if v \<noteq> ''-'' \<and> v \<noteq> ''N/A'' \<and> v \<noteq> ''Error'' then Some (parseFloat v) else None)"

definition newResult :: "state \<Rightarrow> run_env \<Rightarrow> TestResult" where
  "newResult r env =
     \<lparr>r_id = e_id env,
      r_timestamp = e_timestamp env,
      r_ipAddress = (if ipAddress r \<noteq> [] \<and> ipAddress r \<noteq> ''-'' then ipAddress r else ''N/A''),
      r_ping = resultField (ping r),
      r_downloadSpeed = resultField (downloadSpeed r),
      r_uploadSpeed = resultField (uploadSpeed r)\<rparr>"

text \<open>The \<^verbatim>\<open>finally\<close> block.\<close>

definition finalize :: "state \<Rightarrow> run_env \<Rightarrow> state \<Rightarrow> state" where
  "finalize r env s =
     (let s1 = s\<lparr>isTesting := False, abortController := False\<rparr>;
          s2 = setProgress 100 s1;
          s3 = s2\<lparr>currentSpeedDisplay := Num 0\<rparr>
      in s3\<lparr>testHistory := newResult r env # testHistory s3\<rparr>)"

definition startAllTests :: "state \<Rightarrow> run_env \<Rightarrow> state \<Rightarrow> state option" where
  "startAllTests r env s =
     (let s1 = s\<lparr>ping := ''-'', downloadSpeed := ''-'', uploadSpeed := ''-'', ipAddress := ''-''\<rparr>;
          s2 = setProgress 0 s1;
          s3 = s2\<lparr>testStatus := ''Starting...'', testState := pinging, isTesting := True,
                  abortController := True\<rparr>
      in case runStages env s3 of
           None \<Rightarrow> None
         | Some (s4, None) \<Rightarrow> Some (finalize r env s4)
         | Some (s4, Some e) \<Rightarrow> Some (finalize r env (handleError r e s4)))"

text \<open>A click on the dial runs the \<^verbatim>\<open>startAllTests\<close> of the render on screen, whose bindings
  are the state at that moment.\<close>

definition start :: "run_env \<Rightarrow> state \<Rightarrow> state option" where
  "start env s = startAllTests s env s"

section \<open>Vocabulary of the properties\<close>

text \<open>The bytes a download has counted when its loop ends without an exception: the chunks
  up to the end of the stream, or up to and with the first chunk read at or after the test
  duration.\<close>

fun bytesReceived :: "real \<Rightarrow> read_event list \<Rightarrow> nat" where
  "bytesReceived startTime [] = 0"
| "bytesReceived startTime (Chunk n t # reads) =
     (if t - startTime \<ge> testDuration then n else n + bytesReceived startTime reads)"
| "bytesReceived startTime (ev # reads) = 0"

text \<open>The value one probe leaves in \<^verbatim>\<open>pingTimes\<close> once the warm-up is over.\<close>

definition recorded :: "bool \<Rightarrow> probe \<Rightarrow> real" where
  "recorded conn p = (case probeLatency conn p of Inr (Some l) \<Rightarrow> l | _ \<Rightarrow> 1000)"

text \<open>
  The aggregation in the words of the specification, to compare with \<open>pingDisplay\<close>: sort,
  take the median, discard any value exceeding \<open>min(300, 3 \<times> median)\<close>, average the
  remainder; unavailable when nothing was collected or nothing remains.
\<close>

definition specCleaned :: "real list \<Rightarrow> real list" where
  "specCleaned pingTimes = filter (\<lambda>t. \<not> t > trimThreshold pingTimes) (sort pingTimes)"

definition specLatency :: "real list \<Rightarrow> string" where
  "specLatency pingTimes =
     (if pingTimes = [] \<or> specCleaned pingTimes = [] then ''N/A''
      else toFixed2 (Num (sum_list (specCleaned pingTimes) / real (length (specCleaned pingTimes)))))"

text \<open>The argument \<^verbatim>\<open>updateOverallProgress\<close> hands to \<^verbatim>\<open>setProgress\<close>.\<close>

definition prog :: "real \<Rightarrow> real \<Rightarrow> real \<Rightarrow> int" where
  "prog a b x = Math_round (a + (b - a) * (x / 100))"

text \<open>Between \<open>s\<close> and \<open>s'\<close> the progress values set are non-decreasing and stay within
  \<open>lo\<close> and \<open>hi\<close>.\<close>

definition logged :: "int \<Rightarrow> int \<Rightarrow> state \<Rightarrow> state \<Rightarrow> bool" where
  "logged lo hi s s' \<longleftrightarrow>
     (\<exists>ps. progressLog s' = progressLog s @ ps \<and> sorted ps \<and> (\<forall>p\<in>set ps. lo \<le> p \<and> p \<le> hi))"

text \<open>The turns of the upload loop that start before the test duration has elapsed, and how
  many of a list of turns had a request that succeeded.\<close>

definition beforeDeadline :: "real \<Rightarrow> (real \<times> upload_outcome) list \<Rightarrow> (real \<times> upload_outcome) list" where
  "beforeDeadline startTime turns = takeWhile (\<lambda>turn. fst turn - startTime < testDuration) turns"

definition succeeded :: "(real \<times> upload_outcome) list \<Rightarrow> nat" where
  "succeeded turns = length (filter (\<lambda>turn. snd turn = PostOk) turns)"

text \<open>The clock does not run backwards within a transfer: no chunk and no turn of the upload
  loop is timed before the \<^verbatim>\<open>startTime\<close> of its stage (\<^verbatim>\<open>performance.now()\<close> is monotonic).\<close>

definition readingsAfterStart :: "run_env \<Rightarrow> bool" where
  "readingsAfterStart env \<longleftrightarrow>
     (\<forall>ev\<in>set (d_reads (e_download env)).
        case ev of Chunk n t \<Rightarrow> d_startTime (e_download env) \<le> t | _ \<Rightarrow> True) \<and>
     (\<forall>turn\<in>set (u_turns (e_upload env)). u_startTime (e_upload env) \<le> fst turn)"

subsection \<open>Concrete runs\<close>

text \<open>A download of 125,000,000 bytes in two chunks, the second read 10 s after the start.\<close>

definition exampleDownload :: download_env where
  "exampleDownload =
     \<lparr>d_lastProgressTime = 0, d_fetch = ResponseOk, d_startTime = 0,
      d_reads = [Chunk 62500000 5000, Chunk 62500000 10000], d_finalNow = 10000\<rparr>"

text \<open>No socket; the ten warm-up probes and probe 50 fail, every other probe takes 50 ms.\<close>

definition exampleProbes :: "nat \<Rightarrow> probe" where
  "exampleProbes k = Probe False WsTimeout (if k < 10 \<or> k = 50 then HeadFails else HeadOk 50)"

text \<open>An upload whose second request fails and whose clock passes 10 s at the fourth turn;
  and one cancelled during its third request.\<close>

definition exampleUpload :: upload_env where
  "exampleUpload =
     \<lparr>u_lastProgressTime = 0, u_startTime = 0,
      u_turns = [(0, PostOk), (3000, PostRejects), (6000, PostOk), (10000, PostOk)],
      u_finalNow = 10000\<rparr>"

definition cancelledUpload :: upload_env where
  "cancelledUpload =
     \<lparr>u_lastProgressTime = 0, u_startTime = 0,
      u_turns = [(0, PostOk), (3000, PostRejects), (6000, PostAborted), (7000, PostOk),
                 (10000, PostOk)],
      u_finalNow = 10000\<rparr>"

text \<open>Whole runs.  \<open>exampleRun\<close> completes; \<open>cancelledRun\<close> measures 50 ms on every probe
  and is cancelled while the download is being read, 300 ms and one megabyte into it.
  \<open>afterFullRun\<close> is the state on screen after an earlier run that completed.\<close>

definition fiftyProbes :: "nat \<Rightarrow> probe" where
  "fiftyProbes k = Probe False WsTimeout (HeadOk 50)"

definition exampleRun :: run_env where
  "exampleRun =
     \<lparr>e_ip = Some ''203.0.113.7'', e_conn = False, e_probes = exampleProbes,
      e_download = exampleDownload, e_upload = exampleUpload,
      e_id = ''1762041600000'', e_timestamp = ''11/2/2026, 12:00:00 AM''\<rparr>"

definition cancelledDownload :: download_env where
  "cancelledDownload =
     \<lparr>d_lastProgressTime = 0, d_fetch = ResponseOk, d_startTime = 100,
      d_reads = [Chunk 1000000 400, ReadAborted], d_finalNow = 500\<rparr>"

definition cancelledRun :: run_env where
  "cancelledRun =
     \<lparr>e_ip = Some ''203.0.113.7'', e_conn = False, e_probes = fiftyProbes,
      e_download = cancelledDownload, e_upload = exampleUpload,
      e_id = ''1762041600000'', e_timestamp = ''11/2/2026, 12:00:00 AM''\<rparr>"

definition afterFullRun :: state where
  "afterFullRun =
     initialState\<lparr>testState := complete, ping := ''50.00'', downloadSpeed := ''95.37'',
       uploadSpeed := ''1.60'', progress := 100, ipAddress := ''203.0.113.7'',
       testStatus := ''Test Complete!''\<rparr>"

section \<open>Throughput: the rate formula\<close>

lemma downloadLoop_bytes:
  "downloadLoop oS oE st lp b reads s = (s', None, b') \<Longrightarrow> b' = b + bytesReceived st reads"
proof (induction reads arbitrary: lp b s)
  case Nil
  then show ?case by simp
next
  case (Cons ev reads)
  show ?case
  proof (cases ev)
    case (Chunk n t)
    show ?thesis
    proof (cases "t - st \<ge> testDuration")
      case True
      with Cons.prems Chunk show ?thesis by (simp add: Let_def)
    next
      case False
      with Cons.prems Chunk
      have "downloadLoop oS oE st (if 200 < t - lp then t else lp) (b + n) reads
             (if 200 < t - lp
              then updateOverallProgress oS oE (stageProgress (t - st))
                     (s\<lparr>downloadSpeed := toFixed2 (speedMbps (b + n) (t - st)),
                        currentSpeedDisplay := speedMbps (b + n) (t - st)\<rparr>)
              else s) = (s', None, b')"
        by (simp add: Let_def)
      from Cons.IH [OF this] False Chunk show ?thesis by simp
    qed
  next
    case ReadRejects
    with Cons.prems show ?thesis by simp
  next
    case ReadAborted
    with Cons.prems show ?thesis by simp
  qed
qed

text \<open>
  C9.  For a positive elapsed time the rate is a finite number that does not decrease when
  the byte count grows, and for a fixed byte count it does not increase when the positive
  elapsed time grows.
\<close>

theorem speedMbps_monotone:
  "(0 < t \<and> b1 \<le> b2 \<longrightarrow>
      (\<exists>x y. speedMbps b1 t = Num x \<and> speedMbps b2 t = Num y \<and> x \<le> y)) \<and>
   (0 < t1 \<and> t1 \<le> t2 \<longrightarrow>
      (\<exists>x y. speedMbps b t2 = Num x \<and> speedMbps b t1 = Num y \<and> x \<le> y))"
proof (intro conjI impI)
  assume h: "0 < t \<and> b1 \<le> b2"
  then have "real b1 / (t / 1000) / (1024 * 1024) * 8 \<le> real b2 / (t / 1000) / (1024 * 1024) * 8"
    by (simp add: divide_right_mono)
  with h show "\<exists>x y. speedMbps b1 t = Num x \<and> speedMbps b2 t = Num y \<and> x \<le> y"
    by (simp add: speedMbps_def)
next
  assume h: "0 < t1 \<and> t1 \<le> t2"
  then have "real b / t2 \<le> real b / t1"
    by (intro divide_left_mono) simp_all
  then have "real b / (t2 / 1000) / (1024 * 1024) * 8 \<le> real b / (t1 / 1000) / (1024 * 1024) * 8"
    by simp
  with h show "\<exists>x y. speedMbps b t2 = Num x \<and> speedMbps b t1 = Num y \<and> x \<le> y"
    by (simp add: speedMbps_def)
qed

theorem speedMbps_monotone_witness:
  "(0::real) < 1000 \<and> (1048576::nat) \<le> 2097152 \<and> (1000::real) \<le> 2000 \<and>
   speedMbps 1048576 1000 = Num 8 \<and> speedMbps 2097152 1000 = Num 16 \<and>
   speedMbps 1048576 2000 = Num 4 \<and>
   (\<exists>x y. speedMbps 1048576 1000 = Num x \<and> speedMbps 2097152 1000 = Num y \<and> x \<le> y) \<and>
   (\<exists>x y. speedMbps 1048576 2000 = Num x \<and> speedMbps 1048576 1000 = Num y \<and> x \<le> y)"
  using speedMbps_monotone [of 1000 1048576 2097152 1000 2000 1048576]
  by (simp add: speedMbps_def)

text \<open>
  C5.  When the download ends without an exception after a non-zero time, the string stored
  in \<^verbatim>\<open>downloadSpeed\<close> is the two-decimal rendering of bytes received, divided by the elapsed
  seconds, divided by 1,048,576, times 8; and 125,000,000 bytes in 10,000 ms give
  \<open>125000000 \<times> 8 / (1048576 \<times> 10)\<close>, shown as 95.37.
\<close>

theorem download_final_rate:
  assumes "snd (runDownloadTest oS oE env s) = None"
    and "d_finalNow env - d_startTime env \<noteq> 0"
  shows "downloadSpeed (fst (runDownloadTest oS oE env s)) =
           toFixed2 (Num (real (bytesReceived (d_startTime env) (d_reads env)) /
                          ((d_finalNow env - d_startTime env) / 1000) / 1048576 * 8)) \<and>
         speedMbps 125000000 10000 = Num (125000000 * 8 / (1048576 * 10)) \<and>
         toFixed2 (speedMbps 125000000 10000) = ''95.37''"
proof (intro conjI)
  from assms(1) have ok: "d_fetch env = ResponseOk"
    by (auto simp: runDownloadTest_def downloadBody_def split: fetch_outcome.splits)
  obtain s1 e b where L: "downloadLoop oS oE (d_startTime env) (d_lastProgressTime env) 0
      (d_reads env) s = (s1, e, b)"
    by (metis prod_cases3)
  with assms(1) ok have e: "e = None"
    by (cases e) (auto simp: runDownloadTest_def downloadBody_def split: error.splits)
  from L e have b: "b = bytesReceived (d_startTime env) (d_reads env)"
    using downloadLoop_bytes by fastforce
  from L e ok assms(2) b
  show "downloadSpeed (fst (runDownloadTest oS oE env s)) =
           toFixed2 (Num (real (bytesReceived (d_startTime env) (d_reads env)) /
                          ((d_finalNow env - d_startTime env) / 1000) / 1048576 * 8))"
    by (simp add: runDownloadTest_def downloadBody_def Let_def speedMbps_def
        updateOverallProgress_def setProgress_def)
  show "speedMbps 125000000 10000 = Num (125000000 * 8 / (1048576 * 10))"
    by (simp add: speedMbps_def)
  show "toFixed2 (speedMbps 125000000 10000) = ''95.37''"
    by (simp add: speedMbps_def toFixed2_real_def centi_def digits10.simps digitChar_def)
qed

theorem download_final_rate_witness:
  "snd (runDownloadTest 10 60 exampleDownload initialState) = None \<and>
   d_finalNow exampleDownload - d_startTime exampleDownload \<noteq> 0 \<and>
   bytesReceived (d_startTime exampleDownload) (d_reads exampleDownload) = 125000000 \<and>
   downloadSpeed (fst (runDownloadTest 10 60 exampleDownload initialState)) = ''95.37''"
proof -
  have h1: "snd (runDownloadTest 10 60 exampleDownload initialState) = None"
    by (simp add: runDownloadTest_def downloadBody_def exampleDownload_def Let_def testDuration_def)
  have h2: "d_finalNow exampleDownload - d_startTime exampleDownload \<noteq> 0"
    by (simp add: exampleDownload_def)
  have h3: "bytesReceived (d_startTime exampleDownload) (d_reads exampleDownload) = 125000000"
    by (simp add: exampleDownload_def testDuration_def)
  have h4: "toFixed2 (Num (125000000 / (10000 / 1000) / 1048576 * 8)) = ''95.37''"
    by (simp add: toFixed2_real_def centi_def digits10.simps digitChar_def)
  from download_final_rate [OF h1 h2] h3 h4 show ?thesis
    using h1 h2 by (simp add: exampleDownload_def)
qed

section \<open>Latency: aggregation\<close>

lemma foldl_plus_sum_list: "foldl (\<lambda>a b. a + b) (z::real) xs = z + sum_list xs"
  by (induction xs arbitrary: z) simp_all

lemma sort_replicate_snoc:
  "(a::real) \<le> b \<Longrightarrow> sort (replicate n a @ [b]) = replicate n a @ [b]"
  by (intro sorted_sort_id) (auto simp: sorted_append)

lemma sort_replicate: "sort (replicate n (a::real)) = replicate n a"
  by (intro sorted_sort_id) (simp add: sorted_replicate)

lemma median_replicate: "0 < n \<Longrightarrow> medianPing (replicate n a) = a"
  by (simp add: medianPing_def sort_replicate)

lemma cleaned_replicate_all:
  "0 < n \<Longrightarrow> a < min 300 (a * 3) \<Longrightarrow> cleaned (replicate n a) = replicate n a"
  by (simp add: cleaned_def trimThreshold_def median_replicate sort_replicate)

lemma average_replicate:
  "0 < n \<Longrightarrow> a < min 300 (a * 3) \<Longrightarrow> averagePing (replicate n a) = a"
  by (simp add: averagePing_def cleaned_replicate_all foldl_plus_sum_list sum_list_replicate)

lemma pingDisplay_replicate:
  "0 < n \<Longrightarrow> a < min 300 (a * 3) \<Longrightarrow> pingDisplay (replicate n a) = toFixed2 (Num a)"
  by (simp add: pingDisplay_def cleaned_replicate_all average_replicate)

lemma pingDisplay_example:
  "medianPing (replicate 90 50) = 50 \<and> trimThreshold (replicate 90 50) = 150 \<and>
   cleaned (replicate 90 50) = replicate 90 50 \<and> averagePing (replicate 90 50) = 50 \<and>
   pingDisplay (replicate 90 50) = ''50.00''"
  by (simp add: pingDisplay_replicate cleaned_replicate_all average_replicate trimThreshold_def
      median_replicate toFixed2_real_def centi_def digits10.simps digitChar_def)

lemma boundary_median: "medianPing (replicate 89 100 @ [300]) = 100"
  by (simp add: medianPing_def sort_replicate_snoc nth_append)

lemma boundary_cleaned: "cleaned (replicate 89 100 @ [300]) = replicate 89 100"
  by (simp add: cleaned_def trimThreshold_def boundary_median sort_replicate_snoc)

lemma boundary_specCleaned: "specCleaned (replicate 89 100 @ [300]) = replicate 89 100 @ [300]"
  by (simp add: specCleaned_def trimThreshold_def boundary_median sort_replicate_snoc)

lemma cleaned_agree:
  assumes "\<forall>t\<in>set pingTimes. t \<noteq> trimThreshold pingTimes"
  shows "specLatency pingTimes = pingDisplay pingTimes"
proof -
  have "specCleaned pingTimes = cleaned pingTimes"
    unfolding specCleaned_def cleaned_def
    by (rule filter_cong) (use assms in auto)
  then show ?thesis
    by (simp add: specLatency_def pingDisplay_def averagePing_def foldl_plus_sum_list)
qed

text \<open>
  C2.  The example holds (\<open>pingDisplay_example\<close>: ninety values of 50 give the threshold
  150, nothing trimmed, and the string 50.00), and the code agrees with the words of the
  specification whenever no collected value equals the threshold (\<open>cleaned_agree\<close>).
  A value equal to the threshold does not exceed it, yet the filter \<^verbatim>\<open>t < Math.min(300,
  median * 3)\<close> drops it: for 89 probes of 100 ms and one of 300 ms the threshold is 300, the
  code reports 100.00, and discarding only what exceeds 300 gives 102.22.
\<close>

theorem boundary_probe_dropped:
  "trimThreshold (replicate 89 100 @ [300]) = 300 \<and>
   pingDisplay (replicate 89 100 @ [300]) = ''100.00'' \<and>
   specLatency (replicate 89 100 @ [300]) = ''102.22''"
  by (simp add: pingDisplay_def averagePing_def boundary_cleaned specLatency_def boundary_specCleaned
      trimThreshold_def boundary_median foldl_plus_sum_list sum_list_replicate
      toFixed2_real_def centi_def digits10.simps digitChar_def)

text \<open>
  C6.  When nothing was collected, or every collected value exceeds the trim threshold, or
  the filter keeps nothing, the string set is the sentinel \<^verbatim>\<open>N/A\<close>, which the result record
  turns into \<^verbatim>\<open>null\<close>: no number, so neither zero nor a negative one.
\<close>

theorem unavailable_when_all_trimmed:
  assumes "pingTimes = [] \<or> (\<forall>t\<in>set pingTimes. trimThreshold pingTimes < t) \<or> cleaned pingTimes = []"
  shows "pingDisplay pingTimes = ''N/A'' \<and> resultField (pingDisplay pingTimes) = None"
proof -
  have "pingTimes = [] \<or> cleaned pingTimes = []"
    using assms by (auto simp: cleaned_def filter_empty_conv)
  then have "pingDisplay pingTimes = ''N/A''"
    by (auto simp: pingDisplay_def)
  then show ?thesis by (simp add: resultField_def)
qed

theorem unavailable_when_all_trimmed_witness:
  "trimThreshold (replicate 90 1000) = 300 \<and> set (replicate 90 (1000::real)) = {1000} \<and>
   pingDisplay (replicate 90 1000) = ''N/A'' \<and>
   resultField (pingDisplay (replicate 90 1000)) = None \<and> pingDisplay [] = ''N/A''"
proof -
  have t: "trimThreshold (replicate 90 1000) = 300"
    by (simp add: trimThreshold_def median_replicate)
  have h: "\<forall>t\<in>set (replicate 90 (1000::real)). trimThreshold (replicate 90 1000) < t"
    by (simp add: t)
  from unavailable_when_all_trimmed [of "replicate 90 1000"] h
       unavailable_when_all_trimmed [of "[]"] t
  show ?thesis by (simp add: resultField_def)
qed

text \<open>
  C10, as stated, fails: ninety probes of 299.999 ms are all kept (the threshold is 300),
  their average is 299.999, and \<^verbatim>\<open>toFixed(2)\<close> shows it as 300.00, which the result record
  reads back as the number 300.
\<close>

theorem displayed_latency_reaches_300:
  "pingDisplay (replicate 90 (299999 / 1000)) = ''300.00'' \<and>
   resultField (pingDisplay (replicate 90 (299999 / 1000))) = Some (Num 300)"
  by (simp add: pingDisplay_replicate toFixed2_real_def centi_def digits10.simps digitChar_def
      resultField_def parseFloat_def parseUnsigned_def isDigit_def natOfDigits_def digitVal_def)

lemma sum_list_less_bound:
  "xs \<noteq> [] \<Longrightarrow> \<forall>x\<in>set xs. x < (c::real) \<Longrightarrow> sum_list xs < c * real (length xs)"
proof (induction xs)
  case Nil
  then show ?case by simp
next
  case (Cons x xs)
  show ?case
  proof (cases "xs = []")
    case True
    with Cons.prems show ?thesis by simp
  next
    case False
    with Cons have "sum_list xs < c * real (length xs)" by simp
    moreover from Cons.prems have "x < c" by simp
    ultimately show ?thesis by (simp add: algebra_simps)
  qed
qed

lemma sum_list_nonneg_real: "\<forall>x\<in>set xs. 0 \<le> (x::real) \<Longrightarrow> 0 \<le> sum_list xs"
  by (induction xs) simp_all

text \<open>
  C10, amended.  Whenever a number is reported, every retained value is strictly below
  \<open>min(300, 3 \<times> median)\<close>, the average before rounding is strictly below 300, the string
  shown is that average rounded to two decimals, and for non-negative probe values the
  rounded value is at most 300.00 (at most 30000 hundredths).
\<close>

theorem reported_latency_below_300:
  assumes "pingDisplay pingTimes \<noteq> ''N/A''"
  shows "(\<forall>t\<in>set (cleaned pingTimes). t < trimThreshold pingTimes \<and> t < 300) \<and>
         averagePing pingTimes < 300 \<and>
         pingDisplay pingTimes = toFixed2 (Num (averagePing pingTimes)) \<and>
         ((\<forall>t\<in>set pingTimes. 0 \<le> t) \<longrightarrow> centi (averagePing pingTimes) \<le> 30000)"
proof -
  from assms have ne: "cleaned pingTimes \<noteq> []" and d: "pingDisplay pingTimes = toFixed2 (Num (averagePing pingTimes))"
    by (auto simp: pingDisplay_def split: if_splits)
  have lt: "\<forall>t\<in>set (cleaned pingTimes). t < trimThreshold pingTimes \<and> t < 300"
    by (auto simp: cleaned_def trimThreshold_def)
  then have "sum_list (cleaned pingTimes) < 300 * real (length (cleaned pingTimes))"
    using ne sum_list_less_bound by blast
  moreover have "0 < real (length (cleaned pingTimes))" using ne by simp
  ultimately have avg: "averagePing pingTimes < 300"
    by (simp add: averagePing_def foldl_plus_sum_list pos_divide_less_eq)
  have "centi (averagePing pingTimes) \<le> 30000" if nn: "\<forall>t\<in>set pingTimes. 0 \<le> t"
  proof -
    have "\<forall>t\<in>set (cleaned pingTimes). 0 \<le> t" using nn by (auto simp: cleaned_def)
    then have "0 \<le> sum_list (cleaned pingTimes)" by (rule sum_list_nonneg_real)
    then have "0 \<le> averagePing pingTimes"
      by (simp add: averagePing_def foldl_plus_sum_list)
    with avg have "\<bar>averagePing pingTimes\<bar> * 100 + 1 / 2 < 30001" by simp
    then have "\<lfloor>\<bar>averagePing pingTimes\<bar> * 100 + 1 / 2\<rfloor> < 30001"
      by (subst floor_less_iff) simp
    then show ?thesis unfolding centi_def by linarith
  qed
  with lt avg d show ?thesis by blast
qed

theorem reported_latency_below_300_witness:
  "pingDisplay (replicate 90 50) = ''50.00'' \<and> set (replicate 90 (50::real)) = {50} \<and>
   averagePing (replicate 90 50) < 300 \<and> centi (averagePing (replicate 90 50)) \<le> 30000"
proof -
  have d: "pingDisplay (replicate 90 50) = ''50.00''"
    by (simp add: pingDisplay_replicate toFixed2_real_def centi_def digits10.simps digitChar_def)
  then have h: "pingDisplay (replicate 90 50) \<noteq> ''N/A''" by simp
  have nn: "\<forall>t\<in>set (replicate 90 (50::real)). 0 \<le> t" by simp
  from reported_latency_below_300 [OF h] nn d show ?thesis by simp
qed

section \<open>Latency: collection\<close>

lemma probeLatency_error: "probeLatency conn p = Inl e \<Longrightarrow> e = AbortError"
proof (cases p)
  case (Probe opn ws http)
  assume "probeLatency conn p = Inl e"
  with Probe show ?thesis
    by (cases http; cases ws) (auto split: if_splits)
qed

lemma upt_max_step:
  "i < n \<Longrightarrow> [max i w..<n] = (if w \<le> i then i # [max (i + 1) w..<n] else [max (i + 1) w..<n])"
  by (auto simp: max_def upt_conv_Cons)

lemma pingLoop_collect:
  assumes "\<forall>k<numPings. probeLatency conn (probes k) \<noteq> Inl AbortError"
  shows "\<exists>s'. pingLoop conn probes oS oE i acc s =
           (s', None, acc @ map (\<lambda>k. recorded conn (probes k)) [max i warmUpPings..<numPings])"
proof (induction "numPings - i" arbitrary: i acc s)
  case 0
  then have "\<not> i < numPings" by simp
  then show ?case by (simp add: pingLoop.simps)
next
  case (Suc d)
  then have lt: "i < numPings" and d: "d = numPings - (i + 1)" by simp_all
  from assms lt have "probeLatency conn (probes i) \<noteq> Inl AbortError" by simp
  then obtain latency where L: "probeLatency conn (probes i) = Inr latency"
    by (cases "probeLatency conn (probes i)") (auto dest: probeLatency_error)
  define acc' where "acc' = (if latency \<noteq> None \<and> i \<ge> warmUpPings then acc @ [the latency]
                       else if i \<ge> warmUpPings then acc @ [1000] else acc)"
  define s1 where "s1 = updateOverallProgress oS oE (((real i + 1) / real numPings) * 100) s"
  have step: "pingLoop conn probes oS oE i acc s = pingLoop conn probes oS oE (i + 1) acc' s1"
    using lt L by (subst pingLoop.simps) (simp add: acc'_def s1_def Let_def)
  have acc': "acc' = (if warmUpPings \<le> i then acc @ [recorded conn (probes i)] else acc)"
    using L by (cases latency) (simp_all add: acc'_def recorded_def)
  from Suc.hyps(1) [OF d, of acc' s1] obtain s' where
    "pingLoop conn probes oS oE (i + 1) acc' s1 =
       (s', None, acc' @ map (\<lambda>k. recorded conn (probes k)) [max (i + 1) warmUpPings..<numPings])"
    by blast
  with step acc' upt_max_step [OF lt, of warmUpPings] show ?case by auto
qed

text \<open>
  C7.  When no probe is cancelled, the loop over the 100 probes ends without an exception
  and \<^verbatim>\<open>pingTimes\<close> holds exactly one value for each probe 10 to 99, in order: the measured
  latency, or 1000 when the probe failed or timed out.  Probes 0 to 9 leave nothing.
\<close>

theorem warmup_discarded_failures_penalised:
  assumes "\<forall>k<numPings. probeLatency conn (probes k) \<noteq> Inl AbortError"
  shows "\<exists>s'. pingLoop conn probes overallStart overallEnd 0 [] s =
           (s', None,
            map (\<lambda>k. case probeLatency conn (probes k) of Inr (Some l) \<Rightarrow> l | _ \<Rightarrow> 1000)
              [warmUpPings..<numPings])"
proof -
  have "max 0 warmUpPings = warmUpPings" by simp
  with pingLoop_collect [OF assms, of overallStart overallEnd 0 "[]" s]
  show ?thesis by (simp add: recorded_def [abs_def])
qed

theorem warmup_discarded_failures_penalised_witness:
  "\<exists>s'. pingLoop False exampleProbes 0 10 0 [] initialState =
          (s', None, map (\<lambda>k. if k = 50 then 1000 else 50) [warmUpPings..<numPings])"
proof -
  have h: "\<forall>k<numPings. probeLatency False (exampleProbes k) \<noteq> Inl AbortError"
    by (simp add: exampleProbes_def)
  have "map (\<lambda>k. case probeLatency False (exampleProbes k) of Inr (Some l) \<Rightarrow> l | _ \<Rightarrow> 1000)
          [warmUpPings..<numPings] = map (\<lambda>k. if k = 50 then 1000 else 50) [warmUpPings..<numPings]"
    by (rule map_cong) (auto simp: exampleProbes_def warmUpPings_def)
  with warmup_discarded_failures_penalised [OF h, of 0 10 initialState] show ?thesis by simp
qed

section \<open>Upload: failures and cancellation\<close>

lemma uploadLoop_PostOk:
  "\<not> testDuration \<le> t - st \<Longrightarrow>
   uploadLoop a b st lp bytes ((t, PostOk) # turns) s =
     uploadLoop a b st (if 200 < t - lp then t else lp) (bytes + chunkSize) turns
       (if 200 < t - lp
        then updateOverallProgress a b (stageProgress (t - st))
               (s\<lparr>uploadSpeed := toFixed2 (speedMbps (bytes + chunkSize) (t - st)),
                  currentSpeedDisplay := speedMbps (bytes + chunkSize) (t - st)\<rparr>)
        else s)"
  by (simp add: Let_def)

lemma uploadLoop_PostRejects:
  "\<not> testDuration \<le> t - st \<Longrightarrow>
   uploadLoop a b st lp bytes ((t, PostRejects) # turns) s = uploadLoop a b st lp bytes turns s"
  by (simp add: Let_def)

lemma uploadLoop_PostAborted:
  "\<not> testDuration \<le> t - st \<Longrightarrow>
   uploadLoop a b st lp bytes ((t, PostAborted) # turns) s = Some (s, Some AbortError, bytes)"
  by (simp add: Let_def)

lemma uploadLoop_deadline:
  "testDuration \<le> t - st \<Longrightarrow>
   uploadLoop a b st lp bytes ((t, out) # turns) s = Some (s, None, bytes)"
  by (simp add: Let_def)

lemma uploadLoop_runs_to_deadline:
  assumes "\<exists>turn\<in>set turns. testDuration \<le> fst turn - st"
    and "\<forall>turn\<in>set (beforeDeadline st turns). snd turn \<noteq> PostAborted"
  shows "\<exists>s'. uploadLoop a b st lp bytes turns s =
           Some (s', None, bytes + chunkSize * succeeded (beforeDeadline st turns))"
  using assms
proof (induction turns arbitrary: lp bytes s)
  case Nil
  then show ?case by simp
next
  case (Cons turn turns)
  obtain t out where turn: "turn = (t, out)" by (cases turn)
  show ?case
  proof (cases "testDuration \<le> t - st")
    case True
    then show ?thesis
      by (simp add: turn uploadLoop_deadline beforeDeadline_def succeeded_def)
  next
    case False
    then have bd: "beforeDeadline st ((t, out) # turns) = (t, out) # beforeDeadline st turns"
      by (simp add: beforeDeadline_def)
    from Cons.prems(1) False have ex: "\<exists>turn\<in>set turns. testDuration \<le> fst turn - st"
      by (auto simp: turn)
    from Cons.prems(2) bd have na: "\<forall>turn\<in>set (beforeDeadline st turns). snd turn \<noteq> PostAborted"
      and out: "out \<noteq> PostAborted"
      by (auto simp: turn)
    show ?thesis
    proof (cases out)
      case PostOk
      from Cons.IH [OF ex na] obtain s' where
        "uploadLoop a b st (if 200 < t - lp then t else lp) (bytes + chunkSize) turns
           (if 200 < t - lp
            then updateOverallProgress a b (stageProgress (t - st))
                   (s\<lparr>uploadSpeed := toFixed2 (speedMbps (bytes + chunkSize) (t - st)),
                      currentSpeedDisplay := speedMbps (bytes + chunkSize) (t - st)\<rparr>)
            else s) =
         Some (s', None, bytes + chunkSize + chunkSize * succeeded (beforeDeadline st turns))"
        by blast
      with False PostOk bd show ?thesis
        by (simp add: turn succeeded_def Let_def)
    next
      case PostRejects
      from Cons.IH [OF ex na] obtain s' where
        "uploadLoop a b st lp bytes turns s =
           Some (s', None, bytes + chunkSize * succeeded (beforeDeadline st turns))"
        by blast
      with False PostRejects bd show ?thesis
        by (simp add: turn succeeded_def Let_def)
    next
      case PostAborted
      with out show ?thesis by simp
    qed
  qed
qed

lemma uploadLoop_cancelled:
  assumes "\<forall>turn\<in>set pre. fst turn - st < testDuration \<and> snd turn \<noteq> PostAborted"
    and "t - st < testDuration"
  shows "\<exists>s'. uploadLoop a b st lp bytes (pre @ (t, PostAborted) # rest) s =
           Some (s', Some AbortError, bytes + chunkSize * succeeded pre)"
  using assms(1)
proof (induction pre arbitrary: lp bytes s)
  case Nil
  from assms(2) show ?case by (simp add: uploadLoop_PostAborted succeeded_def)
next
  case (Cons turn pre)
  obtain u out where turn: "turn = (u, out)" by (cases turn)
  from Cons.prems have nd: "\<not> testDuration \<le> u - st" and out: "out \<noteq> PostAborted"
    and rest: "\<forall>turn\<in>set pre. fst turn - st < testDuration \<and> snd turn \<noteq> PostAborted"
    by (auto simp: turn)
  show ?case
  proof (cases out)
    case PostOk
    from Cons.IH [OF rest] obtain s' where
      "uploadLoop a b st (if 200 < u - lp then u else lp) (bytes + chunkSize)
         (pre @ (t, PostAborted) # rest)
         (if 200 < u - lp
          then updateOverallProgress a b (stageProgress (u - st))
                 (s\<lparr>uploadSpeed := toFixed2 (speedMbps (bytes + chunkSize) (u - st)),
                    currentSpeedDisplay := speedMbps (bytes + chunkSize) (u - st)\<rparr>)
          else s) =
       Some (s', Some AbortError, bytes + chunkSize + chunkSize * succeeded pre)"
      by blast
    with nd PostOk show ?thesis
      by (simp only: turn append_Cons uploadLoop_PostOk) (simp add: succeeded_def)
  next
    case PostRejects
    from Cons.IH [OF rest] obtain s' where
      "uploadLoop a b st lp bytes (pre @ (t, PostAborted) # rest) s =
         Some (s', Some AbortError, bytes + chunkSize * succeeded pre)"
      by blast
    with nd PostRejects show ?thesis
      by (simp only: turn append_Cons uploadLoop_PostRejects) (simp add: succeeded_def)
  next
    case PostAborted
    with out show ?thesis by simp
  qed
qed

text \<open>
  C8.  If the clock passes the test duration at some turn and no request before that turn
  is cancelled, the stage ends without an exception however many requests were rejected,
  having run every turn before the deadline, and the final rate is computed from one chunk
  for each request that succeeded.  If a request is cancelled before the deadline, the stage
  ends at that turn with the \<^verbatim>\<open>AbortError\<close>, whatever would have followed.
\<close>

theorem upload_failures_tolerated:
  "((\<exists>turn\<in>set (u_turns env). testDuration \<le> fst turn - u_startTime env) \<and>
    (\<forall>turn\<in>set (beforeDeadline (u_startTime env) (u_turns env)). snd turn \<noteq> PostAborted) \<longrightarrow>
      (\<exists>s'. runUploadTest overallStart overallEnd env s = Some (s', None) \<and>
            uploadSpeed s' =
              toFixed2 (speedMbps
                (chunkSize * succeeded (beforeDeadline (u_startTime env) (u_turns env)))
                (u_finalNow env - u_startTime env)))) \<and>
   (u_turns env = pre @ (t, PostAborted) # rest \<and>
    (\<forall>turn\<in>set pre. fst turn - u_startTime env < testDuration \<and> snd turn \<noteq> PostAborted) \<and>
    t - u_startTime env < testDuration \<longrightarrow>
      (\<exists>s'. runUploadTest overallStart overallEnd env s = Some (s', Some AbortError)))"
proof (intro conjI impI)
  assume h: "(\<exists>turn\<in>set (u_turns env). testDuration \<le> fst turn - u_startTime env) \<and>
    (\<forall>turn\<in>set (beforeDeadline (u_startTime env) (u_turns env)). snd turn \<noteq> PostAborted)"
  then obtain s1 where
    "uploadLoop overallStart overallEnd (u_startTime env) (u_lastProgressTime env) 0 (u_turns env) s =
       Some (s1, None, 0 + chunkSize * succeeded (beforeDeadline (u_startTime env) (u_turns env)))"
    using uploadLoop_runs_to_deadline by blast
  then show "\<exists>s'. runUploadTest overallStart overallEnd env s = Some (s', None) \<and>
            uploadSpeed s' =
              toFixed2 (speedMbps
                (chunkSize * succeeded (beforeDeadline (u_startTime env) (u_turns env)))
                (u_finalNow env - u_startTime env))"
    by (simp add: runUploadTest_def Let_def updateOverallProgress_def setProgress_def)
next
  assume h: "u_turns env = pre @ (t, PostAborted) # rest \<and>
    (\<forall>turn\<in>set pre. fst turn - u_startTime env < testDuration \<and> snd turn \<noteq> PostAborted) \<and>
    t - u_startTime env < testDuration"
  then obtain s1 where
    "uploadLoop overallStart overallEnd (u_startTime env) (u_lastProgressTime env) 0
       (pre @ (t, PostAborted) # rest) s = Some (s1, Some AbortError, 0 + chunkSize * succeeded pre)"
    using uploadLoop_cancelled by blast
  with h show "\<exists>s'. runUploadTest overallStart overallEnd env s = Some (s', Some AbortError)"
    by (simp add: runUploadTest_def)
qed

theorem upload_failures_tolerated_witness:
  "succeeded (beforeDeadline (u_startTime exampleUpload) (u_turns exampleUpload)) = 2 \<and>
   (\<exists>s'. runUploadTest 60 100 exampleUpload initialState = Some (s', None) \<and>
         uploadSpeed s' = ''1.60'') \<and>
   (\<exists>s'. runUploadTest 60 100 cancelledUpload initialState = Some (s', Some AbortError))"
proof -
  have bd: "beforeDeadline (u_startTime exampleUpload) (u_turns exampleUpload) =
              [(0, PostOk), (3000, PostRejects), (6000, PostOk)]"
    by (simp add: beforeDeadline_def exampleUpload_def testDuration_def)
  have h1: "(\<exists>turn\<in>set (u_turns exampleUpload). testDuration \<le> fst turn - u_startTime exampleUpload) \<and>
    (\<forall>turn\<in>set (beforeDeadline (u_startTime exampleUpload) (u_turns exampleUpload)). snd turn \<noteq> PostAborted)"
    unfolding bd by (simp add: exampleUpload_def testDuration_def)
  have h2: "u_turns cancelledUpload =
              [(0, PostOk), (3000, PostRejects)] @ (6000, PostAborted) # [(7000, PostOk), (10000, PostOk)] \<and>
    (\<forall>turn\<in>set [(0, PostOk), (3000, PostRejects)].
        fst turn - u_startTime cancelledUpload < testDuration \<and> snd turn \<noteq> PostAborted) \<and>
    6000 - u_startTime cancelledUpload < testDuration"
    by (simp add: cancelledUpload_def testDuration_def)
  have sp: "toFixed2 (speedMbps (chunkSize * 2) 10000) = ''1.60''"
    by (simp add: speedMbps_def chunkSize_def toFixed2_real_def centi_def digits10.simps digitChar_def)
  have n: "succeeded [(0::real, PostOk), (3000, PostRejects), (6000, PostOk)] = 2"
    by (simp add: succeeded_def)
  have f: "u_finalNow exampleUpload - u_startTime exampleUpload = 10000"
    by (simp add: exampleUpload_def)
  from upload_failures_tolerated [where env = exampleUpload and overallStart = 60
      and overallEnd = 100 and s = initialState] h1
  have a: "\<exists>s'. runUploadTest 60 100 exampleUpload initialState = Some (s', None) \<and>
         uploadSpeed s' = ''1.60''"
    unfolding bd n f using sp by simp
  from upload_failures_tolerated [where env = cancelledUpload
      and pre = "[(0, PostOk), (3000, PostRejects)]" and t = 6000
      and rest = "[(7000, PostOk), (10000, PostOk)]" and overallStart = 60
      and overallEnd = 100 and s = initialState] h2
  have b: "\<exists>s'. runUploadTest 60 100 cancelledUpload initialState = Some (s', Some AbortError)"
    by blast
  from a b bd n show ?thesis by simp
qed

section \<open>The history log\<close>

lemma updateOverallProgress_history [simp]:
  "testHistory (updateOverallProgress a b x s) = testHistory s"
  by (simp add: updateOverallProgress_def setProgress_def Let_def)

lemma pingLoop_history:
  "pingLoop conn probes a b i acc s = (s', e, pts) \<Longrightarrow> testHistory s' = testHistory s"
proof (induction "numPings - i" arbitrary: i acc s)
  case 0
  then have "\<not> i < numPings" by simp
  with "0.prems" show ?case by (simp add: pingLoop.simps)
next
  case (Suc d)
  then have lt: "i < numPings" and d: "d = numPings - (i + 1)" by simp_all
  show ?case
  proof (cases "probeLatency conn (probes i)")
    case (Inl err)
    with Suc.prems lt show ?thesis by (simp add: pingLoop.simps)
  next
    case (Inr latency)
    with Suc.prems lt obtain acc' where
      "pingLoop conn probes a b (i + 1) acc'
         (updateOverallProgress a b (((real i + 1) / real numPings) * 100) s) = (s', e, pts)"
      by (subst (asm) pingLoop.simps) (simp add: Let_def)
    from Suc.hyps(1) [OF d this] show ?thesis by simp
  qed
qed

lemma runPingTest_history:
  "runPingTest conn probes a b s = (s', e) \<Longrightarrow> testHistory s' = testHistory s"
  by (auto simp: runPingTest_def split: prod.splits option.splits dest: pingLoop_history)

lemma downloadLoop_history:
  "downloadLoop a b st lp bytes reads s = (s', e, b') \<Longrightarrow> testHistory s' = testHistory s"
proof (induction reads arbitrary: lp bytes s)
  case Nil
  then show ?case by simp
next
  case (Cons ev reads)
  show ?case
  proof (cases ev)
    case (Chunk n t)
    show ?thesis
    proof (cases "testDuration \<le> t - st")
      case True
      with Cons.prems Chunk show ?thesis by (auto simp: Let_def split: if_splits)
    next
      case False
      with Cons.prems Chunk obtain lp' s1 where
        "downloadLoop a b st lp' (bytes + n) reads s1 = (s', e, b')"
        and "testHistory s1 = testHistory s"
        by (auto simp: Let_def split: if_splits)
      with Cons.IH show ?thesis by metis
    qed
  next
    case ReadRejects
    with Cons.prems show ?thesis by simp
  next
    case ReadAborted
    with Cons.prems show ?thesis by simp
  qed
qed

lemma runDownloadTest_history:
  "runDownloadTest a b env s = (s', e) \<Longrightarrow> testHistory s' = testHistory s"
  by (auto simp: runDownloadTest_def downloadBody_def Let_def
      split: prod.splits option.splits fetch_outcome.splits error.splits
      dest: downloadLoop_history)

lemma uploadLoop_history:
  "uploadLoop a b st lp bytes turns s = Some (s', e, b') \<Longrightarrow> testHistory s' = testHistory s"
proof (induction turns arbitrary: lp bytes s)
  case Nil
  then show ?case by simp
next
  case (Cons turn turns)
  obtain t out where turn: "turn = (t, out)" by (cases turn)
  show ?case
  proof (cases "testDuration \<le> t - st")
    case True
    with Cons.prems turn show ?thesis by (simp add: Let_def)
  next
    case False
    show ?thesis
    proof (cases out)
      case PostOk
      with Cons.prems turn False obtain lp' s1 where
        "uploadLoop a b st lp' (bytes + chunkSize) turns s1 = Some (s', e, b')"
        and "testHistory s1 = testHistory s"
        by (auto simp: Let_def split: if_splits)
      with Cons.IH show ?thesis by metis
    next
      case PostRejects
      with Cons.prems turn False Cons.IH show ?thesis by (simp add: Let_def)
    next
      case PostAborted
      with Cons.prems turn False show ?thesis by (simp add: Let_def)
    qed
  qed
qed

lemma runUploadTest_history:
  "runUploadTest a b env s = Some (s', e) \<Longrightarrow> testHistory s' = testHistory s"
  by (auto simp: runUploadTest_def Let_def split: prod.splits option.splits
      dest: uploadLoop_history)

lemma runStages_history:
  assumes "runStages env s = Some (s', e)"
  shows "testHistory s' = testHistory s"
proof -
  let ?s3 = "s\<lparr>testStatus := ''Fetching IP Address...'',
                ipAddress := (case e_ip env of None \<Rightarrow> ''N/A''
                              | Some ip \<Rightarrow> if ip = [] then ''N/A'' else ip),
                testStatus := ''Starting Ping Test...''\<rparr>"
  obtain s4 e4 where P: "runPingTest (e_conn env) (e_probes env) 0 pingProgressEnd ?s3 = (s4, e4)"
    by (cases "runPingTest (e_conn env) (e_probes env) 0 pingProgressEnd ?s3")
  then have h4: "testHistory s4 = testHistory s"
    by (auto dest: runPingTest_history)
  show ?thesis
  proof (cases e4)
    case (Some x)
    with assms P h4 show ?thesis by (simp add: runStages_def Let_def)
  next
    case None
    let ?s5 = "s4\<lparr>testStatus := ''Starting Download Test...'', testState := downloading\<rparr>"
    obtain s6 e6 where D: "runDownloadTest pingProgressEnd downloadProgressEnd (e_download env) ?s5 = (s6, e6)"
      by (cases "runDownloadTest pingProgressEnd downloadProgressEnd (e_download env) ?s5")
    then have h6: "testHistory s6 = testHistory s"
      using h4 by (auto dest: runDownloadTest_history)
    show ?thesis
    proof (cases e6)
      case (Some x)
      with assms P None D h6 show ?thesis by (simp add: runStages_def Let_def)
    next
      case N6: None
      let ?s7 = "s6\<lparr>testStatus := ''Starting Upload Test...'', testState := uploading\<rparr>"
      from assms P None D N6 obtain s8 e8 where
        U: "runUploadTest downloadProgressEnd uploadProgressEnd (e_upload env) ?s7 = Some (s8, e8)"
        by (auto simp: runStages_def Let_def split: option.splits)
      then have h8: "testHistory s8 = testHistory s"
        using h6 by (auto dest: runUploadTest_history)
      from assms P None D N6 U h8 show ?thesis
        by (cases e8) (auto simp: runStages_def Let_def)
    qed
  qed
qed

lemma handleError_history [simp]: "testHistory (handleError r e s) = testHistory s"
  by (cases e) (simp_all add: handleError_def Let_def)

lemma finalize_history [simp]:
  "testHistory (finalize r env s) = newResult r env # testHistory s"
  by (simp add: finalize_def Let_def setProgress_def)

lemma startAllTests_history:
  assumes "startAllTests r env s = Some s'"
  shows "testHistory s' = newResult r env # testHistory s"
proof -
  let ?s3 = "(setProgress 0 (s\<lparr>ping := ''-'', downloadSpeed := ''-'', uploadSpeed := ''-'',
                 ipAddress := ''-''\<rparr>))\<lparr>testStatus := ''Starting...'', testState := pinging,
                 isTesting := True, abortController := True\<rparr>"
  from assms obtain s4 e where R: "runStages env ?s3 = Some (s4, e)"
    by (auto simp: startAllTests_def Let_def split: option.splits)
  then have "testHistory s4 = testHistory ?s3" by (rule runStages_history)
  then have "testHistory s4 = testHistory s" by (simp add: setProgress_def)
  with assms R show ?thesis
    by (cases e) (auto simp: startAllTests_def Let_def)
qed

lemma uploadLoop_returns:
  "\<exists>turn\<in>set turns. testDuration \<le> fst turn - st \<Longrightarrow>
   uploadLoop a b st lp bytes turns s \<noteq> None"
proof (induction turns arbitrary: lp bytes s)
  case Nil
  then show ?case by simp
next
  case (Cons turn turns)
  obtain t out where turn: "turn = (t, out)" by (cases turn)
  show ?case
  proof (cases "testDuration \<le> t - st")
    case True
    then show ?thesis by (simp add: turn Let_def)
  next
    case False
    with Cons.prems turn have "\<exists>turn\<in>set turns. testDuration \<le> fst turn - st" by auto
    with Cons.IH False show ?thesis
      by (cases out) (simp_all add: turn Let_def)
  qed
qed

lemma runUploadTest_returns:
  assumes "\<exists>turn\<in>set (u_turns env). testDuration \<le> fst turn - u_startTime env"
  shows "runUploadTest a b env s \<noteq> None"
proof -
  obtain s1 e1 b1 where
    "uploadLoop a b (u_startTime env) (u_lastProgressTime env) 0 (u_turns env) s = Some (s1, e1, b1)"
    using uploadLoop_returns [OF assms, of a b "u_lastProgressTime env" 0 s] by auto
  then show ?thesis
    by (cases e1) (simp_all add: runUploadTest_def Let_def)
qed

lemma runStages_returns:
  assumes "\<exists>turn\<in>set (u_turns (e_upload env)). testDuration \<le> fst turn - u_startTime (e_upload env)"
  shows "runStages env s \<noteq> None"
proof
  assume "runStages env s = None"
  then obtain t where
    "runUploadTest downloadProgressEnd uploadProgressEnd (e_upload env) t = None"
    by (auto simp: runStages_def Let_def split: prod.splits option.splits)
  with runUploadTest_returns [OF assms] show False by blast
qed

lemma startAllTests_returns:
  assumes "\<exists>turn\<in>set (u_turns (e_upload env)). testDuration \<le> fst turn - u_startTime (e_upload env)"
  shows "\<exists>s'. startAllTests r env s = Some s'"
proof -
  let ?s3 = "(setProgress 0 (s\<lparr>ping := ''-'', downloadSpeed := ''-'', uploadSpeed := ''-'',
                 ipAddress := ''-''\<rparr>))\<lparr>testStatus := ''Starting...'', testState := pinging,
                 isTesting := True, abortController := True\<rparr>"
  from runStages_returns [OF assms] obtain s4 e where "runStages env ?s3 = Some (s4, e)"
    by fastforce
  then show ?thesis
    by (cases e) (simp_all add: startAllTests_def Let_def)
qed

text \<open>
  C1.  Whatever the network does and whichever render the closure comes from, a run that
  returns has put exactly one record in front of the history it found, so the history is one
  longer; and the run does return as soon as the upload's clock reaches the test duration at
  some turn (the one loop of the run that only the clock or a cancellation ends).
\<close>

theorem one_record_per_run:
  "(\<forall>s'. startAllTests r env s = Some s' \<longrightarrow>
      testHistory s' = newResult r env # testHistory s \<and>
      length (testHistory s') = length (testHistory s) + 1) \<and>
   ((\<exists>turn\<in>set (u_turns (e_upload env)).
        testDuration \<le> fst turn - u_startTime (e_upload env)) \<longrightarrow>
      (\<exists>s'. startAllTests r env s = Some s'))"
  using startAllTests_history startAllTests_returns by fastforce

theorem one_record_per_run_witness:
  "\<exists>s'. start exampleRun initialState = Some s' \<and>
        testHistory s' = [newResult initialState exampleRun] \<and> length (testHistory s') = 1"
proof -
  have h: "\<exists>turn\<in>set (u_turns (e_upload exampleRun)).
             testDuration \<le> fst turn - u_startTime (e_upload exampleRun)"
    by (simp add: exampleRun_def exampleUpload_def testDuration_def)
  have e: "testHistory initialState = []" by (simp add: initialState_def)
  from one_record_per_run [of initialState exampleRun initialState] h e
  show ?thesis unfolding start_def by auto
qed

section \<open>The record of a cancelled run\<close>

lemma fifty_ping:
  "\<exists>s'. runPingTest False fiftyProbes a b s = (s', None) \<and> ping s' = ''50.00''"
proof -
  have h: "\<forall>k<numPings. probeLatency False (fiftyProbes k) \<noteq> Inl AbortError"
    by (simp add: fiftyProbes_def)
  have r: "recorded False (fiftyProbes k) = 50" for k
    by (simp add: recorded_def fiftyProbes_def)
  have "length [max 0 warmUpPings..<numPings] = 90"
    by (simp add: warmUpPings_def numPings_def)
  then have "map (\<lambda>k. recorded False (fiftyProbes k)) [max 0 warmUpPings..<numPings] = replicate 90 50"
    by (simp only: r map_replicate_const)
  with pingLoop_collect [OF h, of a b 0 "[]" s] obtain s1 where
    "pingLoop False fiftyProbes a b 0 [] s = (s1, None, replicate 90 50)"
    by auto
  moreover have "pingDisplay (replicate 90 50) = ''50.00''"
    by (simp add: pingDisplay_replicate toFixed2_real_def centi_def digits10.simps digitChar_def)
  ultimately show ?thesis by (simp add: runPingTest_def)
qed

lemma cancelled_download:
  "\<exists>s'. runDownloadTest a b cancelledDownload s = (s', Some AbortError) \<and>
        downloadSpeed s' = ''25.43''"
  by (simp add: runDownloadTest_def downloadBody_def cancelledDownload_def Let_def
      testDuration_def speedMbps_def updateOverallProgress_def setProgress_def
      toFixed2_real_def centi_def digits10.simps digitChar_def)

lemma startAllTests_download_cancelled:
  assumes P: "\<And>t. \<exists>s1. runPingTest (e_conn env) (e_probes env) 0 pingProgressEnd t = (s1, None)"
    and D: "\<And>t. \<exists>s2. runDownloadTest pingProgressEnd downloadProgressEnd (e_download env) t =
                     (s2, Some AbortError)"
  shows "\<exists>s6. startAllTests r env s = Some (finalize r env (handleError r AbortError s6))"
proof -
  let ?s3 = "(setProgress 0 (s\<lparr>ping := ''-'', downloadSpeed := ''-'', uploadSpeed := ''-'',
                 ipAddress := ''-''\<rparr>))\<lparr>testStatus := ''Starting...'', testState := pinging,
                 isTesting := True, abortController := True\<rparr>"
  let ?p3 = "?s3\<lparr>testStatus := ''Fetching IP Address...'',
                ipAddress := (case e_ip env of None \<Rightarrow> ''N/A''
                              | Some ip \<Rightarrow> if ip = [] then ''N/A'' else ip),
                testStatus := ''Starting Ping Test...''\<rparr>"
  from P obtain s4 where
    p: "runPingTest (e_conn env) (e_probes env) 0 pingProgressEnd ?p3 = (s4, None)"
    by blast
  let ?s5 = "s4\<lparr>testStatus := ''Starting Download Test...'', testState := downloading\<rparr>"
  from D obtain s6 where
    d: "runDownloadTest pingProgressEnd downloadProgressEnd (e_download env) ?s5 =
          (s6, Some AbortError)"
    by blast
  from p d have "runStages env ?s3 = Some (s6, Some AbortError)"
    by (simp add: runStages_def Let_def)
  then have "startAllTests r env s = Some (finalize r env (handleError r AbortError s6))"
    by (simp add: startAllTests_def Let_def)
  then show ?thesis by blast
qed

text \<open>
  C3 fails on the code.  In \<open>cancelledRun\<close> the latency stage ends with 50.00 on display and
  the download is cancelled while its live rate shows 25.43.  Started from the initial state,
  the run stores a record without latency (and the \<^verbatim>\<open>catch\<close> block replaces the displayed
  50.00 by \<^verbatim>\<open>N/A\<close>): the \<^verbatim>\<open>finally\<close> block reads the bindings of the render the click came
  from, which still hold \<^verbatim>\<open>-\<close>.  Started after a completed run, the record of the cancelled
  run carries that earlier run's latency, download and upload rates.
\<close>

theorem cancelled_download_record:
  "(\<exists>s1. runPingTest (e_conn cancelledRun) (e_probes cancelledRun) 0 pingProgressEnd s = (s1, None) \<and>
         ping s1 = ''50.00'') \<and>
   (\<exists>s2. runDownloadTest pingProgressEnd downloadProgressEnd (e_download cancelledRun) s =
           (s2, Some AbortError) \<and> downloadSpeed s2 = ''25.43'') \<and>
   (\<exists>s'. start cancelledRun initialState = Some s' \<and> testStatus s' = ''Test Aborted'' \<and>
         ping s' = ''N/A'' \<and>
         r_ping (hd (testHistory s')) = None \<and>
         r_downloadSpeed (hd (testHistory s')) = None \<and>
         r_uploadSpeed (hd (testHistory s')) = None) \<and>
   (\<exists>s'. start cancelledRun afterFullRun = Some s' \<and> testStatus s' = ''Test Aborted'' \<and>
         r_ping (hd (testHistory s')) = Some (Num 50) \<and>
         r_downloadSpeed (hd (testHistory s')) = Some (Num (9537 / 100)) \<and>
         r_uploadSpeed (hd (testHistory s')) = Some (Num (8 / 5)))"
proof (intro conjI)
  have P: "\<exists>s1. runPingTest (e_conn cancelledRun) (e_probes cancelledRun) 0 pingProgressEnd t =
                  (s1, None) \<and> ping s1 = ''50.00''" for t
    using fifty_ping [of 0 pingProgressEnd t] by (simp add: cancelledRun_def)
  have D: "\<exists>s2. runDownloadTest pingProgressEnd downloadProgressEnd (e_download cancelledRun) t =
                  (s2, Some AbortError) \<and> downloadSpeed s2 = ''25.43''" for t
    using cancelled_download [of pingProgressEnd downloadProgressEnd t]
    by (simp add: cancelledRun_def)
  from P show "\<exists>s1. runPingTest (e_conn cancelledRun) (e_probes cancelledRun) 0 pingProgressEnd s =
      (s1, None) \<and> ping s1 = ''50.00''" .
  from D show "\<exists>s2. runDownloadTest pingProgressEnd downloadProgressEnd (e_download cancelledRun) s =
           (s2, Some AbortError) \<and> downloadSpeed s2 = ''25.43''" .
  have P': "\<exists>s1. runPingTest (e_conn cancelledRun) (e_probes cancelledRun) 0 pingProgressEnd t =
                  (s1, None)" for t
    using P [of t] by blast
  have D': "\<exists>s2. runDownloadTest pingProgressEnd downloadProgressEnd (e_download cancelledRun) t =
                  (s2, Some AbortError)" for t
    using D [of t] by blast
  from startAllTests_download_cancelled [OF P' D', of initialState initialState]
  obtain s6 where "start cancelledRun initialState =
      Some (finalize initialState cancelledRun (handleError initialState AbortError s6))"
    unfolding start_def by blast
  then show "\<exists>s'. start cancelledRun initialState = Some s' \<and> testStatus s' = ''Test Aborted'' \<and>
         ping s' = ''N/A'' \<and>
         r_ping (hd (testHistory s')) = None \<and>
         r_downloadSpeed (hd (testHistory s')) = None \<and>
         r_uploadSpeed (hd (testHistory s')) = None"
    by (simp add: finalize_def handleError_def Let_def setProgress_def initialState_def
        newResult_def resultField_def)
  from startAllTests_download_cancelled [OF P' D', of afterFullRun afterFullRun]
  obtain s6 where "start cancelledRun afterFullRun =
      Some (finalize afterFullRun cancelledRun (handleError afterFullRun AbortError s6))"
    unfolding start_def by blast
  then show "\<exists>s'. start cancelledRun afterFullRun = Some s' \<and> testStatus s' = ''Test Aborted'' \<and>
         r_ping (hd (testHistory s')) = Some (Num 50) \<and>
         r_downloadSpeed (hd (testHistory s')) = Some (Num (9537 / 100)) \<and>
         r_uploadSpeed (hd (testHistory s')) = Some (Num (8 / 5))"
    by (simp add: finalize_def handleError_def Let_def setProgress_def initialState_def
        afterFullRun_def newResult_def resultField_def
        parseFloat_def parseUnsigned_def isDigit_def natOfDigits_def digitVal_def)
qed

section \<open>Overall progress\<close>

lemma Math_round_mono: "x \<le> y \<Longrightarrow> Math_round x \<le> Math_round y"
  by (simp add: Math_round_def floor_mono)

lemma prog_mono: "a \<le> b \<Longrightarrow> x \<le> y \<Longrightarrow> prog a b x \<le> prog a b y"
  unfolding prog_def
  by (intro Math_round_mono add_left_mono mult_left_mono divide_right_mono) simp_all

lemma prog_0: "prog a b 0 = Math_round a"
  by (simp add: prog_def)

lemma prog_100: "prog a b 100 = Math_round b"
  by (simp add: prog_def)

lemma prog_bounds:
  assumes "a \<le> b" "0 \<le> x" "x \<le> 100"
  shows "Math_round a \<le> prog a b x" and "prog a b x \<le> Math_round b"
  using prog_mono [OF assms(1,2)] prog_mono [OF assms(1,3)] by (simp_all add: prog_0 prog_100)

lemma progressLog_update:
  "progressLog (updateOverallProgress a b x s) = progressLog s @ [prog a b x]"
  by (simp add: updateOverallProgress_def setProgress_def prog_def Let_def)

lemma logged_same: "progressLog s' = progressLog s \<Longrightarrow> logged lo hi s s'"
  by (simp add: logged_def)

lemma logged_step:
  "progressLog s' = progressLog s @ [v] \<Longrightarrow> lo \<le> v \<Longrightarrow> v \<le> hi \<Longrightarrow> logged lo hi s s'"
  by (simp add: logged_def)

lemma logged_trans:
  assumes "logged lo mid s s'" and "logged mid hi s' s''" and "lo \<le> mid" and "mid \<le> hi"
  shows "logged lo hi s s''"
proof -
  from assms(1) obtain ps where ps: "progressLog s' = progressLog s @ ps" "sorted ps"
    "\<forall>p\<in>set ps. lo \<le> p \<and> p \<le> mid"
    by (auto simp: logged_def)
  from assms(2) obtain qs where qs: "progressLog s'' = progressLog s' @ qs" "sorted qs"
    "\<forall>p\<in>set qs. mid \<le> p \<and> p \<le> hi"
    by (auto simp: logged_def)
  have "sorted (ps @ qs)"
    using ps qs by (fastforce simp: sorted_append)
  moreover have "\<forall>p\<in>set (ps @ qs). lo \<le> p \<and> p \<le> hi"
    using ps(3) qs(3) assms(3,4) by fastforce
  moreover have "progressLog s'' = progressLog s @ (ps @ qs)"
    using ps(1) qs(1) by simp
  ultimately show ?thesis unfolding logged_def by blast
qed

lemma logged_weaken:
  "logged lo hi s s' \<Longrightarrow> lo' \<le> lo \<Longrightarrow> hi \<le> hi' \<Longrightarrow> logged lo' hi' s s'"
  unfolding logged_def by fastforce

lemma pingLoop_logged:
  assumes "a \<le> b"
  shows "pingLoop conn probes a b i acc s = (s', e, pts) \<Longrightarrow>
         logged (prog a b ((real i + 1) / real numPings * 100)) (Math_round b) s s'"
proof (induction "numPings - i" arbitrary: i acc s)
  case 0
  then have "\<not> i < numPings" by simp
  with "0.prems" show ?case by (simp add: pingLoop.simps logged_same)
next
  case (Suc d)
  then have lt: "i < numPings" and d: "d = numPings - (i + 1)" by simp_all
  let ?q = "\<lambda>i. prog a b ((real i + 1) / real numPings * 100)"
  show ?case
  proof (cases "probeLatency conn (probes i)")
    case (Inl err)
    with Suc.prems lt show ?thesis by (simp add: pingLoop.simps logged_same)
  next
    case (Inr latency)
    let ?s1 = "updateOverallProgress a b (((real i + 1) / real numPings) * 100) s"
    from Inr Suc.prems lt obtain acc' where
      "pingLoop conn probes a b (i + 1) acc' ?s1 = (s', e, pts)"
      by (subst (asm) pingLoop.simps) (simp add: Let_def)
    from Suc.hyps(1) [OF d this] have ih: "logged (?q (i + 1)) (Math_round b) ?s1 s'" .
    have up: "(real i + 1) / real numPings * 100 \<le> 100"
      using lt by (simp add: numPings_def)
    have le: "?q i \<le> ?q (i + 1)"
      using assms by (intro prog_mono) (simp_all add: numPings_def)
    have hi: "?q i \<le> Math_round b"
      using prog_mono [OF assms up] by (simp add: prog_100)
    have "progressLog ?s1 = progressLog s @ [?q i]"
      by (simp only: progressLog_update)
    then have A: "logged (?q i) (?q i) s ?s1"
      by (rule logged_step) (rule order_refl)+
    have B: "logged (?q i) (Math_round b) ?s1 s'"
      using ih le by (rule logged_weaken) simp
    from logged_trans [OF A B order_refl hi] show ?thesis .
  qed
qed

lemma runPingTest_logged:
  assumes "a \<le> b" and "runPingTest conn probes a b s = (s', e)"
  shows "logged (Math_round a) (Math_round b) s s'"
proof -
  obtain s1 e1 pts where L: "pingLoop conn probes a b 0 [] s = (s1, e1, pts)"
    by (metis prod_cases3)
  have "0 \<le> (real 0 + 1) / real numPings * 100" by (simp add: numPings_def)
  from prog_mono [OF assms(1) this]
  have "Math_round a \<le> prog a b ((real 0 + 1) / real numPings * 100)" by (simp add: prog_0)
  with pingLoop_logged [OF assms(1) L] have "logged (Math_round a) (Math_round b) s s1"
    by (rule logged_weaken) simp
  moreover from L assms(2) have "progressLog s' = progressLog s1"
    by (cases e1) (auto simp: runPingTest_def)
  ultimately show ?thesis by (simp add: logged_def)
qed


lemma stageProgress_mono: "x \<le> y \<Longrightarrow> stageProgress x \<le> stageProgress y"
  by (simp add: stageProgress_def testDuration_def min_def)

lemma stageProgress_nonneg: "0 \<le> x \<Longrightarrow> 0 \<le> stageProgress x"
  by (simp add: stageProgress_def testDuration_def)

lemma stageProgress_le: "stageProgress x \<le> 100"
  by (simp add: stageProgress_def)

lemma live_bounds:
  assumes "a \<le> b" and "st \<le> t"
  shows "Math_round a \<le> prog a b (stageProgress (t - st))"
    and "prog a b (stageProgress (t - st)) \<le> Math_round b"
proof -
  from assms(2) have "0 \<le> stageProgress (t - st)" by (intro stageProgress_nonneg) simp
  from prog_bounds [OF assms(1) this stageProgress_le]
  show "Math_round a \<le> prog a b (stageProgress (t - st))"
    and "prog a b (stageProgress (t - st)) \<le> Math_round b" .
qed

lemma live_mono:
  assumes "a \<le> b" and "lp \<le> t"
  shows "prog a b (stageProgress (lp - st)) \<le> prog a b (stageProgress (t - st))"
proof -
  from assms(2) have "stageProgress (lp - st) \<le> stageProgress (t - st)"
    by (intro stageProgress_mono) simp
  with assms(1) show ?thesis by (rule prog_mono)
qed

text \<open>One live report at time \<open>t\<close>, later than the last one at \<open>lp\<close>.\<close>

lemma live_step:
  assumes ab: "a \<le> b" and st: "st \<le> t" and lp: "lp < t"
    and log: "progressLog s1 = progressLog s @ [prog a b (stageProgress (t - st))]"
  shows "logged (max (Math_round a) (prog a b (stageProgress (lp - st))))
           (prog a b (stageProgress (t - st))) s s1"
proof -
  from lp have "lp \<le> t" by simp
  from live_mono [OF ab this] live_bounds(1) [OF ab st]
  have "max (Math_round a) (prog a b (stageProgress (lp - st))) \<le> prog a b (stageProgress (t - st))"
    by (rule max.boundedI [rotated])
  with log show ?thesis by (rule logged_step) (rule order_refl)
qed

lemma live_rest:
  assumes ab: "a \<le> b" and st: "st \<le> t"
    and A: "logged lo (prog a b (stageProgress (t - st))) s s1"
    and B: "logged (max (Math_round a) (prog a b (stageProgress (t - st)))) (Math_round b) s1 s'"
    and lo: "lo \<le> prog a b (stageProgress (t - st))"
  shows "logged lo (Math_round b) s s'"
proof -
  let ?p = "prog a b (stageProgress (t - st))"
  have hi: "?p \<le> Math_round b" using live_bounds(2) [OF ab st] .
  have "?p \<le> max (Math_round a) ?p" by (rule max.cobounded2)
  with B have B': "logged ?p (Math_round b) s1 s'"
    by (rule logged_weaken) (rule order_refl)
  from logged_trans [OF A B' lo hi] show ?thesis .
qed

lemma downloadLoop_logged:
  assumes ab: "a \<le> b"
  shows "\<forall>ev\<in>set reads. (case ev of Chunk n t \<Rightarrow> st \<le> t | _ \<Rightarrow> True) \<Longrightarrow>
         downloadLoop a b st lp bytes reads s = (s', e, b') \<Longrightarrow>
         logged (max (Math_round a) (prog a b (stageProgress (lp - st)))) (Math_round b) s s'"
proof (induction reads arbitrary: lp bytes s)
  case Nil
  then show ?case by (simp add: logged_same)
next
  case (Cons ev reads)
  let ?lo = "\<lambda>lp. max (Math_round a) (prog a b (stageProgress (lp - st)))"
  show ?case
  proof (cases ev)
    case (Chunk n t)
    with Cons.prems(1) have st: "st \<le> t"
      and rest: "\<forall>ev\<in>set reads. (case ev of Chunk n t \<Rightarrow> st \<le> t | _ \<Rightarrow> True)"
      by simp_all
    let ?p = "prog a b (stageProgress (t - st))"
    let ?s1 = "updateOverallProgress a b (stageProgress (t - st))
                 (s\<lparr>downloadSpeed := toFixed2 (speedMbps (bytes + n) (t - st)),
                    currentSpeedDisplay := speedMbps (bytes + n) (t - st)\<rparr>)"
    have hi: "?p \<le> Math_round b" using live_bounds(2) [OF ab st] .
    show ?thesis
    proof (cases "200 < t - lp")
      case True
      then have lp: "lp < t" by simp
      have "progressLog ?s1 = progressLog s @ [?p]"
        by (simp add: progressLog_update)
      from live_step [OF ab st lp this] have A: "logged (?lo lp) ?p s ?s1" .
      from lp have "lp \<le> t" by simp
      from live_mono [OF ab this] live_bounds(1) [OF ab st]
      have lop: "?lo lp \<le> ?p" by (rule max.boundedI [rotated])
      show ?thesis
      proof (cases "testDuration \<le> t - st")
        case stop: True
        with Cons.prems(2) Chunk True have "s' = ?s1"
          by (auto simp: Let_def)
        with logged_weaken [OF A order_refl hi] show ?thesis by simp
      next
        case False
        with Cons.prems(2) Chunk True
        have "downloadLoop a b st t (bytes + n) reads ?s1 = (s', e, b')"
          by (auto simp: Let_def)
        from Cons.IH [OF rest this] have B: "logged (?lo t) (Math_round b) ?s1 s'" .
        from live_rest [OF ab st A B lop] show ?thesis .
      qed
    next
      case False
      show ?thesis
      proof (cases "testDuration \<le> t - st")
        case stop: True
        with Cons.prems(2) Chunk False have "s' = s"
          by (auto simp: Let_def)
        then show ?thesis by (simp add: logged_same)
      next
        case go: False
        with Cons.prems(2) Chunk False
        have "downloadLoop a b st lp (bytes + n) reads s = (s', e, b')"
          by (auto simp: Let_def)
        from Cons.IH [OF rest this] show ?thesis .
      qed
    qed
  next
    case ReadRejects
    with Cons.prems show ?thesis by (simp add: logged_same)
  next
    case ReadAborted
    with Cons.prems show ?thesis by (simp add: logged_same)
  qed
qed

text \<open>The closing \<^verbatim>\<open>updateOverallProgress(overallStart, overallEnd, 100)\<close> of a stage.\<close>

lemma stage_end:
  assumes ab: "a \<le> b" and A: "logged lo (Math_round b) s s1" and lo: "Math_round a \<le> lo"
    and log: "progressLog s' = progressLog s1 @ [prog a b 100]"
  shows "logged (Math_round a) (Math_round b) s s'"
proof -
  have le: "Math_round a \<le> Math_round b" using ab by (rule Math_round_mono)
  from A lo have A': "logged (Math_round a) (Math_round b) s s1"
    by (rule logged_weaken) (rule order_refl)
  from log have "progressLog s' = progressLog s1 @ [Math_round b]"
    by (simp only: prog_100)
  then have B: "logged (Math_round b) (Math_round b) s1 s'"
    by (rule logged_step) (rule order_refl)+
  from logged_trans [OF A' B le order_refl] show ?thesis .
qed

lemma runDownloadTest_logged:
  assumes ab: "a \<le> b"
    and clock: "\<forall>ev\<in>set (d_reads env). (case ev of Chunk n t \<Rightarrow> d_startTime env \<le> t | _ \<Rightarrow> True)"
    and run: "runDownloadTest a b env s = (s', e)"
  shows "logged (Math_round a) (Math_round b) s s'"
proof (cases "d_fetch env = ResponseOk")
  case False
  with run have "s' = s"
    by (cases "d_fetch env") (auto simp: runDownloadTest_def downloadBody_def)
  then show ?thesis by (simp add: logged_same)
next
  case True
  let ?lo = "max (Math_round a)
               (prog a b (stageProgress (d_lastProgressTime env - d_startTime env)))"
  obtain s1 e1 b1 where L: "downloadLoop a b (d_startTime env) (d_lastProgressTime env) 0
      (d_reads env) s = (s1, e1, b1)"
    by (metis prod_cases3)
  from downloadLoop_logged [OF ab clock L] have A: "logged ?lo (Math_round b) s s1" .
  have lo: "Math_round a \<le> ?lo" by (rule max.cobounded1)
  show ?thesis
  proof (cases e1)
    case (Some x)
    with run True L have "s' = s1"
      by (cases x) (auto simp: runDownloadTest_def downloadBody_def)
    with logged_weaken [OF A lo order_refl] show ?thesis by simp
  next
    case None
    with run True L have "progressLog s' = progressLog s1 @ [prog a b 100]"
      by (auto simp: runDownloadTest_def downloadBody_def Let_def progressLog_update)
    from stage_end [OF ab A lo this] show ?thesis .
  qed
qed


lemma uploadLoop_logged:
  assumes ab: "a \<le> b"
  shows "\<forall>turn\<in>set turns. st \<le> fst turn \<Longrightarrow>
         uploadLoop a b st lp bytes turns s = Some (s', e, b') \<Longrightarrow>
         logged (max (Math_round a) (prog a b (stageProgress (lp - st)))) (Math_round b) s s'"
proof (induction turns arbitrary: lp bytes s)
  case Nil
  then show ?case by simp
next
  case (Cons turn turns)
  obtain t out where turn: "turn = (t, out)" by (cases turn)
  with Cons.prems(1) have st: "st \<le> t" and rest: "\<forall>turn\<in>set turns. st \<le> fst turn"
    by simp_all
  let ?lo = "\<lambda>lp. max (Math_round a) (prog a b (stageProgress (lp - st)))"
  let ?p = "prog a b (stageProgress (t - st))"
  let ?s1 = "updateOverallProgress a b (stageProgress (t - st))
               (s\<lparr>uploadSpeed := toFixed2 (speedMbps (bytes + chunkSize) (t - st)),
                  currentSpeedDisplay := speedMbps (bytes + chunkSize) (t - st)\<rparr>)"
  show ?case
  proof (cases "testDuration \<le> t - st")
    case True
    with Cons.prems(2) turn have "s' = s" by (simp add: Let_def)
    then show ?thesis by (simp add: logged_same)
  next
    case False
    show ?thesis
    proof (cases out)
      case PostAborted
      with Cons.prems(2) turn False have "s' = s" by (simp add: Let_def)
      then show ?thesis by (simp add: logged_same)
    next
      case PostRejects
      with Cons.prems(2) turn False
      have "uploadLoop a b st lp bytes turns s = Some (s', e, b')" by (simp add: Let_def)
      from Cons.IH [OF rest this] show ?thesis .
    next
      case PostOk
      show ?thesis
      proof (cases "200 < t - lp")
        case True
        then have lp: "lp < t" by simp
        have "progressLog ?s1 = progressLog s @ [?p]"
          by (simp add: progressLog_update)
        from live_step [OF ab st lp this] have A: "logged (?lo lp) ?p s ?s1" .
        from lp have "lp \<le> t" by simp
        from live_mono [OF ab this] live_bounds(1) [OF ab st]
        have lop: "?lo lp \<le> ?p" by (rule max.boundedI [rotated])
        from Cons.prems(2) turn False PostOk True
        have "uploadLoop a b st t (bytes + chunkSize) turns ?s1 = Some (s', e, b')"
          by (simp add: Let_def)
        from Cons.IH [OF rest this] have B: "logged (?lo t) (Math_round b) ?s1 s'" .
        from live_rest [OF ab st A B lop] show ?thesis .
      next
        case nr: False
        with Cons.prems(2) turn False PostOk
        have "uploadLoop a b st lp (bytes + chunkSize) turns s = Some (s', e, b')"
          by (simp add: Let_def)
        from Cons.IH [OF rest this] show ?thesis .
      qed
    qed
  qed
qed

lemma runUploadTest_logged:
  assumes ab: "a \<le> b"
    and clock: "\<forall>turn\<in>set (u_turns env). u_startTime env \<le> fst turn"
    and run: "runUploadTest a b env s = Some (s', e)"
  shows "logged (Math_round a) (Math_round b) s s'"
proof -
  let ?lo = "max (Math_round a)
               (prog a b (stageProgress (u_lastProgressTime env - u_startTime env)))"
  from run obtain s1 e1 b1 where L: "uploadLoop a b (u_startTime env) (u_lastProgressTime env) 0
      (u_turns env) s = Some (s1, e1, b1)"
    by (auto simp: runUploadTest_def split: option.splits)
  from uploadLoop_logged [OF ab clock L] have A: "logged ?lo (Math_round b) s s1" .
  have lo: "Math_round a \<le> ?lo" by (rule max.cobounded1)
  show ?thesis
  proof (cases e1)
    case (Some x)
    with run L have "s' = s1" by (simp add: runUploadTest_def)
    with logged_weaken [OF A lo order_refl] show ?thesis by simp
  next
    case None
    with run L have "progressLog s' = progressLog s1 @ [prog a b 100]"
      by (auto simp: runUploadTest_def Let_def progressLog_update)
    from stage_end [OF ab A lo this] show ?thesis .
  qed
qed

lemma Math_round_ends:
  "Math_round 0 = 0" "Math_round pingProgressEnd = 10" "Math_round downloadProgressEnd = 60"
  "Math_round uploadProgressEnd = 100"
  by (simp_all add: Math_round_def pingProgressEnd_def downloadProgressEnd_def
      uploadProgressEnd_def)

lemma runStages_logged:
  assumes clock: "readingsAfterStart env" and run: "runStages env s = Some (s', e)"
  shows "logged 0 100 s s'"
proof -
  let ?s3 = "s\<lparr>testStatus := ''Fetching IP Address...'',
                ipAddress := (case e_ip env of None \<Rightarrow> ''N/A''
                              | Some ip \<Rightarrow> if ip = [] then ''N/A'' else ip),
                testStatus := ''Starting Ping Test...''\<rparr>"
  obtain s4 e4 where P: "runPingTest (e_conn env) (e_probes env) 0 pingProgressEnd ?s3 = (s4, e4)"
    by (cases "runPingTest (e_conn env) (e_probes env) 0 pingProgressEnd ?s3")
  have "(0::real) \<le> pingProgressEnd" by (simp add: pingProgressEnd_def)
  from runPingTest_logged [OF this P] have "logged 0 10 ?s3 s4"
    by (simp add: Math_round_ends)
  then have l4: "logged 0 10 s s4" by (simp add: logged_def)
  show ?thesis
  proof (cases e4)
    case (Some x)
    with run P have "s' = s4" by (simp add: runStages_def Let_def)
    with logged_weaken [OF l4, of 0 100] show ?thesis by simp
  next
    case None
    let ?s5 = "s4\<lparr>testStatus := ''Starting Download Test...'', testState := downloading\<rparr>"
    obtain s6 e6 where D: "runDownloadTest pingProgressEnd downloadProgressEnd (e_download env) ?s5 = (s6, e6)"
      by (cases "runDownloadTest pingProgressEnd downloadProgressEnd (e_download env) ?s5")
    have ab: "pingProgressEnd \<le> downloadProgressEnd"
      by (simp add: pingProgressEnd_def downloadProgressEnd_def)
    from clock have "\<forall>ev\<in>set (d_reads (e_download env)).
        (case ev of Chunk n t \<Rightarrow> d_startTime (e_download env) \<le> t | _ \<Rightarrow> True)"
      by (simp add: readingsAfterStart_def)
    from runDownloadTest_logged [OF ab this D] have "logged 10 60 ?s5 s6"
      by (simp add: Math_round_ends)
    then have "logged 10 60 s4 s6" by (simp add: logged_def)
    from logged_trans [OF l4 this] have l6: "logged 0 60 s s6" by simp
    show ?thesis
    proof (cases e6)
      case (Some x)
      with run P None D have "s' = s6" by (simp add: runStages_def Let_def)
      with logged_weaken [OF l6, of 0 100] show ?thesis by simp
    next
      case N6: None
      let ?s7 = "s6\<lparr>testStatus := ''Starting Upload Test...'', testState := uploading\<rparr>"
      from run P None D N6 obtain s8 e8 where
        U: "runUploadTest downloadProgressEnd uploadProgressEnd (e_upload env) ?s7 = Some (s8, e8)"
        by (auto simp: runStages_def Let_def split: option.splits)
      have ab: "downloadProgressEnd \<le> uploadProgressEnd"
        by (simp add: downloadProgressEnd_def uploadProgressEnd_def)
      from clock have "\<forall>turn\<in>set (u_turns (e_upload env)). u_startTime (e_upload env) \<le> fst turn"
        by (simp add: readingsAfterStart_def)
      from runUploadTest_logged [OF ab this U] have "logged 60 100 ?s7 s8"
        by (simp add: Math_round_ends)
      then have "logged 60 100 s6 s8" by (simp add: logged_def)
      from logged_trans [OF l6 this] have l8: "logged 0 100 s s8" by simp
      from run P None D N6 U have "progressLog s' = progressLog s8"
        by (cases e8) (auto simp: runStages_def Let_def)
      with l8 show ?thesis by (simp add: logged_def)
    qed
  qed
qed

lemma handleError_progressLog [simp]: "progressLog (handleError r e s) = progressLog s"
  by (cases e) (simp_all add: handleError_def Let_def)

lemma finalize_progress:
  "progressLog (finalize r env s) = progressLog s @ [100]" "progress (finalize r env s) = 100"
  by (simp_all add: finalize_def Let_def setProgress_def)

text \<open>
  C4.  In a run whose clock readings do not precede the start of their stage, the values
  passed to \<^verbatim>\<open>setProgress\<close> from the first to the last call of the run never decrease, the
  last of them is 100, and the progress the run leaves is 100, whether the run completed,
  failed or was cancelled.
\<close>

theorem progress_monotone_ends_at_100:
  assumes "startAllTests r env s = Some s'" and "readingsAfterStart env"
  shows "\<exists>ps. progressLog s' = progressLog s @ ps \<and> sorted ps \<and> ps \<noteq> [] \<and>
              last ps = 100 \<and> progress s' = 100"
proof -
  let ?s2 = "setProgress 0 (s\<lparr>ping := ''-'', downloadSpeed := ''-'', uploadSpeed := ''-'',
                 ipAddress := ''-''\<rparr>)"
  let ?s3 = "?s2\<lparr>testStatus := ''Starting...'', testState := pinging,
                 isTesting := True, abortController := True\<rparr>"
  from assms(1) obtain s4 e where R: "runStages env ?s3 = Some (s4, e)"
    by (auto simp: startAllTests_def Let_def split: option.splits)
  from runStages_logged [OF assms(2) R] obtain qs where
    qs: "progressLog s4 = progressLog ?s3 @ qs" "sorted qs" "\<forall>p\<in>set qs. 0 \<le> p \<and> p \<le> 100"
    by (auto simp: logged_def)
  have s3: "progressLog ?s3 = progressLog s @ [0]" by (simp add: setProgress_def)
  from assms(1) R have fin: "progressLog s' = progressLog s4 @ [100]" "progress s' = 100"
    by (cases e; auto simp: startAllTests_def Let_def finalize_progress)+
  let ?ps = "0 # qs @ [100]"
  have "progressLog s' = progressLog s @ ?ps" using fin(1) qs(1) s3 by simp
  moreover have "sorted ?ps" using qs(2,3) by (auto simp: sorted_append)
  moreover have "last ?ps = 100" by simp
  ultimately show ?thesis using fin(2) by blast
qed

theorem progress_monotone_ends_at_100_witness:
  "\<exists>s' ps. start exampleRun initialState = Some s' \<and> progressLog s' = ps \<and> sorted ps \<and>
           last ps = 100 \<and> progress s' = 100"
proof -
  have h: "\<exists>turn\<in>set (u_turns (e_upload exampleRun)).
             testDuration \<le> fst turn - u_startTime (e_upload exampleRun)"
    by (simp add: exampleRun_def exampleUpload_def testDuration_def)
  from startAllTests_returns [OF h] obtain s' where
    s': "startAllTests initialState exampleRun initialState = Some s'"
    by blast
  have c: "readingsAfterStart exampleRun"
    by (simp add: readingsAfterStart_def exampleRun_def exampleDownload_def exampleUpload_def)
  from progress_monotone_ends_at_100 [OF s' c] s' show ?thesis
    by (auto simp: start_def initialState_def)
qed

end
